theory Spec2Isabelle
  imports Complex_Main "HOL-Library.Sublist" "HOL-Library.Word"
begin

section \<open>The stop-sequence matcher: \<^verbatim>\<open>struct StopBuffer\<close>\<close>

text \<open>
  \<^verbatim>\<open>std::string\<close> is a byte string, modelled as \<open>string\<close> (a list of 8-bit characters);
  \<^verbatim>\<open>size_t\<close> lengths are \<open>nat\<close>. The only subtraction on \<^verbatim>\<open>size_t\<close> values that the
  source performs is guarded (\<^verbatim>\<open>pending_.size() >= stop.size()\<close>, and
  \<^verbatim>\<open>pending_.size() >= max_stop_\<close> with \<^verbatim>\<open>max_stop_ != 0\<close>), so no wrap-around occurs.
  The private members \<^verbatim>\<open>stops_\<close>, \<^verbatim>\<open>max_stop_\<close>, \<^verbatim>\<open>pending_\<close> carry the prefix \<open>sb_\<close>.
\<close>

record StopBuffer =
  sb_stops :: "string list"
  sb_max_stop :: nat
  sb_pending :: string

text \<open>The constructor: \<^verbatim>\<open>max_stop_\<close> is the running maximum of the stop lengths.\<close>

definition StopBuffer_init :: "string list \<Rightarrow> StopBuffer" where
  "StopBuffer_init stops =
     \<lparr>sb_stops = stops,
      sb_max_stop = foldl (\<lambda>m s. max m (length s)) 0 stops,
      sb_pending = []\<rparr>"

text \<open>
  The \<^verbatim>\<open>for (const auto & stop : stops_)\<close> loop of \<^verbatim>\<open>push\<close>: empty stops are skipped, and
  the first stop with \<^verbatim>\<open>pending_.compare(pending_.size() - stop.size(), stop.size(), stop) == 0\<close>
  is returned.
\<close>

fun scan_stops :: "string list \<Rightarrow> string \<Rightarrow> string option" where
  "scan_stops [] pending = None"
| "scan_stops (stop # rest) pending =
     (if stop = [] then scan_stops rest pending
      else if length stop \<le> length pending \<and>
              take (length stop) (drop (length pending - length stop) pending) = stop
      then Some stop
      else scan_stops rest pending)"

text \<open>
  \<^verbatim>\<open>push\<close> returns the emitted text, the out-parameters \<^verbatim>\<open>hit_stop\<close> and \<^verbatim>\<open>matched\<close>, and the
  updated matcher.
\<close>

definition push :: "StopBuffer \<Rightarrow> string \<Rightarrow> string \<times> bool \<times> string \<times> StopBuffer" where
  "push sb piece =
     (let pending = sb_pending sb @ piece in
      if sb_max_stop sb = 0 then (pending, False, [], sb\<lparr>sb_pending := []\<rparr>)
      else
        (case scan_stops (sb_stops sb) pending of
           Some stop \<Rightarrow>
             (take (length pending - length stop) pending, True, stop, sb\<lparr>sb_pending := []\<rparr>)
         | None \<Rightarrow>
             if sb_max_stop sb \<le> length pending then
               (let emit_len = length pending - (sb_max_stop sb - 1) in
                (take emit_len pending, False, [], sb\<lparr>sb_pending := drop emit_len pending\<rparr>))
             else ([], False, [], sb\<lparr>sb_pending := pending\<rparr>)))"

definition flush :: "StopBuffer \<Rightarrow> string \<times> StopBuffer" where
  "flush sb = (sb_pending sb, sb\<lparr>sb_pending := []\<rparr>)"

text \<open>
  A sequence of fragments pushed one after the other: the results of the pushes in order,
  and the matcher after the last one.
\<close>

fun push_seq :: "StopBuffer \<Rightarrow> string list \<Rightarrow> (string \<times> bool \<times> string) list \<times> StopBuffer" where
  "push_seq sb [] = ([], sb)"
| "push_seq sb (f # fs) =
     (case push sb f of
        (emit, hit_stop, matched, sb') \<Rightarrow>
          (case push_seq sb' fs of (rs, sb'') \<Rightarrow> ((emit, hit_stop, matched) # rs, sb'')))"

definition any_hit :: "(string \<times> bool \<times> string) list \<Rightarrow> bool" where
  "any_hit rs = list_ex (\<lambda>r. fst (snd r)) rs"

text \<open>Everything the matcher gives out: the text returned by the pushes, then by \<^verbatim>\<open>flush\<close>.\<close>

definition total_output :: "string list \<Rightarrow> string list \<Rightarrow> string" where
  "total_output stops frs =
     (case push_seq (StopBuffer_init stops) frs of
        (rs, sb) \<Rightarrow> concat (map fst rs) @ fst (flush sb))"

text \<open>
  The specification's reading of the expected output, written from its words: the raw text
  with the first occurring configured (non-empty) stop string removed, and the raw text itself
  when none occurs. The text is scanned from the left; \<open>seen\<close> is the part already scanned.
\<close>

fun spec_trim :: "string list \<Rightarrow> string \<Rightarrow> string \<Rightarrow> string" where
  "spec_trim stops seen [] = seen"
| "spec_trim stops seen (c # rest) =
     (case find (\<lambda>s. s \<noteq> [] \<and> suffix s (seen @ [c])) stops of
        Some s \<Rightarrow> take (length (seen @ [c]) - length s) (seen @ [c]) @ rest
      | None \<Rightarrow> spec_trim stops (seen @ [c]) rest)"

definition spec_output :: "string list \<Rightarrow> string list \<Rightarrow> string" where
  "spec_output stops frs = spec_trim stops [] (concat frs)"

definition stop_occurs :: "string list \<Rightarrow> string \<Rightarrow> bool" where
  "stop_occurs stops raw = list_ex (\<lambda>s. s \<noteq> [] \<and> sublist s raw) stops"

text \<open>The text ends with a non-empty configured stop string.\<close>

definition ends_with_stop :: "string list \<Rightarrow> string \<Rightarrow> bool" where
  "ends_with_stop stops raw = list_ex (\<lambda>s. s \<noteq> [] \<and> suffix s raw) stops"

definition longest_stop :: "string list \<Rightarrow> nat" where
  "longest_stop stops = Max (insert 0 (length ` set stops))"

section \<open>Machine arithmetic: \<^verbatim>\<open>int\<close> and \<^verbatim>\<open>double\<close>\<close>

text \<open>
  The sum of two \<^verbatim>\<open>int\<close> values is taken in 32 bits: the two's-complement result, which
  is the sum itself when that lies between \<open>-2^31\<close> and \<open>2^31 - 1\<close>.
\<close>

definition int32_add :: "int \<Rightarrow> int \<Rightarrow> int" where
  "int32_add a b = sint (word_of_int a + word_of_int b :: 32 word)"

text \<open>
  A \<^verbatim>\<open>double\<close> is the real number it denotes. The result of an arithmetic operation is the
  exact result rounded to the nearest \<^verbatim>\<open>double\<close>, ties to the even significand: with
  \<open>2^e\<close> the spacing of the doubles around \<open>x\<close> (53 significant bits), \<open>x\<close> is rounded to a
  multiple of \<open>2^e\<close>. The magnitudes that occur here (token counts, milliseconds and their
  quotients) are far from the overflow and the subnormal range, which are not modelled. The
  conversion of an \<^verbatim>\<open>int\<close> to \<^verbatim>\<open>double\<close> is exact.
\<close>

definition round_half_even :: "real \<Rightarrow> int" where
  "round_half_even x =
     (let f = \<lfloor>x\<rfloor>; d = x - of_int f in
      if d < 1 / 2 then f else if 1 / 2 < d then f + 1 else if even f then f else f + 1)"

definition round_double :: "real \<Rightarrow> real" where
  "round_double x =
     (if x = 0 then 0
      else (let e = \<lfloor>log 2 \<bar>x\<bar>\<rfloor> - 52 in
            of_int (round_half_even (x / 2 powr of_int e)) * 2 powr of_int e))"

definition dsub :: "real \<Rightarrow> real \<Rightarrow> real" where
  "dsub a b = round_double (a - b)"

definition dmul :: "real \<Rightarrow> real \<Rightarrow> real" where
  "dmul a b = round_double (a * b)"

definition ddiv :: "real \<Rightarrow> real \<Rightarrow> real" where
  "ddiv a b = round_double (a / b)"

section \<open>The session: \<^verbatim>\<open>EngineState\<close>, \<^verbatim>\<open>EngineMetrics\<close>, \<^verbatim>\<open>StopReason\<close>\<close>

text \<open>
  \<^verbatim>\<open>StopReason::None\<close> is written \<open>None_reason\<close> (\<open>None\<close> is the constructor of \<open>option\<close>).
  The \<^verbatim>\<open>int\<close> fields hold an \<open>int\<close>: the prompt token count is the tokenizer's 32-bit
  result, the generated token count is at most the loop bound, and the configuration is set
  by the clamps of \<^verbatim>\<open>loadModel\<close>. The \<^verbatim>\<open>double\<close> fields hold the real number denoted.
\<close>

datatype StopReason = None_reason | Eos | StopSequence | MaxTokens | Error

record EngineMetrics =
  prompt_tokens :: int
  generation_tokens :: int
  ttfs_ms :: real
  prefill_ms :: real
  decode_ms :: real
  total_ms :: real
  tps :: real
  prompt_tps :: real
  context_used_pct :: real
  truncated :: bool

text \<open>\<^verbatim>\<open>EngineMetrics{}\<close>: the default member initialisers.\<close>

definition EngineMetrics_init :: EngineMetrics where
  "EngineMetrics_init =
     \<lparr>prompt_tokens = 0, generation_tokens = 0, ttfs_ms = 0, prefill_ms = 0, decode_ms = 0,
      total_ms = 0, tps = 0, prompt_tps = 0, context_used_pct = 0, truncated = False\<rparr>"

text \<open>
  The global \<^verbatim>\<open>g_state\<close>. The two handles are pointers into the runtime: \<open>None\<close> is
  \<^verbatim>\<open>nullptr\<close>. The mutex is not a field of the model: every operation below is the body
  that runs while the lock is held, and \<open>should_abort\<close> is the value of the atomic flag.
\<close>

record EngineState =
  model :: "nat option"
  ctx :: "nat option"
  n_ctx :: int
  n_threads :: int
  n_gpu_layers :: int
  use_vulkan :: bool
  metrics :: EngineMetrics
  stop_reason :: StopReason
  stop_sequence :: string
  should_abort :: bool

definition reset_metrics_locked :: "EngineState \<Rightarrow> EngineState" where
  "reset_metrics_locked st =
     st\<lparr>metrics := EngineMetrics_init, stop_reason := None_reason, stop_sequence := [],
        should_abort := False\<rparr>"

definition unload_locked :: "EngineState \<Rightarrow> EngineState" where
  "unload_locked st =
     reset_metrics_locked (st\<lparr>should_abort := False, ctx := None, model := None\<rparr>)"

section \<open>\<^verbatim>\<open>loadModel\<close>\<close>

text \<open>
  The fields of \<^verbatim>\<open>llama_context_params\<close> that \<^verbatim>\<open>loadModel\<close> writes (prefix \<open>cp_\<close>).
  \<^verbatim>\<open>n_ctx\<close>, \<^verbatim>\<open>n_batch\<close> and \<^verbatim>\<open>n_ubatch\<close> are \<^verbatim>\<open>uint32_t\<close> (the source compares them with
  \<^verbatim>\<open>2048U\<close>), the thread counts are \<^verbatim>\<open>int32_t\<close>.
\<close>

record llama_context_params =
  cp_n_ctx :: "32 word"
  cp_n_batch :: "32 word"
  cp_n_ubatch :: "32 word"
  cp_n_threads :: int
  cp_n_threads_batch :: int
  cp_offload_kqv :: bool

text \<open>
  What the host and the runtime answer during one call of \<^verbatim>\<open>loadModel\<close>:
  \<^verbatim>\<open>GetStringUTFChars\<close> (\<open>None\<close> is a null pointer), \<^verbatim>\<open>stat\<close> with \<^verbatim>\<open>S_ISREG\<close>,
  \<^verbatim>\<open>llama_model_load_from_file\<close> (by path and \<^verbatim>\<open>n_gpu_layers\<close>),
  \<^verbatim>\<open>llama_context_default_params\<close> and \<^verbatim>\<open>llama_init_from_model\<close>.
\<close>

record load_runtime =
  path_chars :: "string option"
  regular_file :: "string \<Rightarrow> bool"
  llama_model_load_from_file :: "string \<Rightarrow> int \<Rightarrow> nat option"
  llama_context_default_params :: llama_context_params
  llama_init_from_model :: "nat \<Rightarrow> llama_context_params \<Rightarrow> nat option"

definition file_exists :: "load_runtime \<Rightarrow> string option \<Rightarrow> bool" where
  "file_exists rt path = (case path of None \<Rightarrow> False | Some p \<Rightarrow> regular_file rt p)"

text \<open>
  The context parameters that \<^verbatim>\<open>loadModel\<close> builds. \<^verbatim>\<open>jint\<close> arguments are 32-bit words read
  as signed (\<open>sint\<close>); \<^verbatim>\<open>std::max(512, nCtx)\<close> is an \<^verbatim>\<open>int\<close> stored into the unsigned field.
\<close>

definition load_cparams :: "llama_context_params \<Rightarrow> 32 word \<Rightarrow> 32 word \<Rightarrow> bool \<Rightarrow> llama_context_params" where
  "load_cparams dflt nThreads nCtx useVulkan =
     (let cp = dflt\<lparr>cp_n_ctx := word_of_int (max 512 (sint nCtx)),
                    cp_n_threads := max 1 (sint nThreads),
                    cp_n_threads_batch := max 1 (sint nThreads)\<rparr>
      in if useVulkan then
           (let b = min 2048 (cp_n_ctx cp div 4) in
            cp\<lparr>cp_n_batch := b, cp_n_ubatch := min 512 (b div 4), cp_offload_kqv := True\<rparr>)
         else
           (let b = min 512 (cp_n_ctx cp div 8) in
            cp\<lparr>cp_n_batch := b, cp_n_ubatch := min 128 (b div 4)\<rparr>))"

definition loadModel ::
  "load_runtime \<Rightarrow> EngineState \<Rightarrow> 32 word \<Rightarrow> 32 word \<Rightarrow> 32 word \<Rightarrow> bool \<Rightarrow> bool \<times> EngineState" where
  "loadModel rt st nThreads nCtx nGpuLayers useVulkan =
     (case path_chars rt of
        None \<Rightarrow> (False, st)
      | Some path \<Rightarrow>
          if \<not> file_exists rt (Some path) then (False, st)
          else
            (let st1 = unload_locked st;
                 gpu = (if useVulkan then sint nGpuLayers else 0)
             in case llama_model_load_from_file rt path gpu of
                  None \<Rightarrow> (False, st1)
                | Some mdl \<Rightarrow>
                    (let cparams =
                       load_cparams (llama_context_default_params rt) nThreads nCtx useVulkan
                     in case llama_init_from_model rt mdl cparams of
                          None \<Rightarrow> (False, st1)
                        | Some c \<Rightarrow>
                            (True,
                             reset_metrics_locked
                               (st1\<lparr>model := Some mdl, ctx := Some c,
                                    n_ctx := sint (cp_n_ctx cparams),
                                    n_threads := cp_n_threads cparams,
                                    n_gpu_layers := gpu,
                                    use_vulkan := useVulkan\<rparr>)))))"

section \<open>Metrics read: \<^verbatim>\<open>build_metrics_json_locked\<close>\<close>

text \<open>
  The JSON object as its members in order, before rendering: the decimal rendering of the
  numbers and \<^verbatim>\<open>escape_json\<close> on the stop text are left to the stream.
\<close>

datatype json_value = JInt int | JReal real | JBool bool | JString string

fun stop_reason_to_string :: "StopReason \<Rightarrow> string" where
  "stop_reason_to_string None_reason = ''none''"
| "stop_reason_to_string Eos = ''eos''"
| "stop_reason_to_string StopSequence = ''stop_sequence''"
| "stop_reason_to_string MaxTokens = ''max_tokens''"
| "stop_reason_to_string Error = ''error''"

definition build_metrics_json_locked :: "EngineState \<Rightarrow> (string \<times> json_value) list" where
  "build_metrics_json_locked st =
     (let m = metrics st in
      [(''nCtx'', JInt (n_ctx st)),
       (''nThreads'', JInt (n_threads st)),
       (''nGpuLayers'', JInt (n_gpu_layers st)),
       (''useVulkan'', JBool (use_vulkan st)),
       (''promptTokens'', JInt (prompt_tokens m)),
       (''generationTokens'', JInt (generation_tokens m)),
       (''ttfsMs'', JReal (ttfs_ms m)),
       (''prefillMs'', JReal (prefill_ms m)),
       (''decodeMs'', JReal (decode_ms m)),
       (''totalMs'', JReal (total_ms m)),
       (''tps'', JReal (tps m)),
       (''promptTps'', JReal (prompt_tps m)),
       (''contextUsedPct'', JReal (context_used_pct m)),
       (''truncated'', JBool (truncated m)),
       (''stopReason'', JString (stop_reason_to_string (stop_reason st))),
       (''stopSequence'', JString (stop_sequence st))])"

section \<open>State restore: \<^verbatim>\<open>stateRestore\<close>, \<^verbatim>\<open>stateRestoreFrom\<close>\<close>

text \<open>
  The working memory of the live context belongs to the runtime; it is a value of a type
  \<open>'mem\<close> of the runtime's, passed beside the session and returned updated. The runtime's
  two operations on it are parameters: \<^verbatim>\<open>llama_memory_clear(llama_get_memory(ctx), data)\<close>
  and \<^verbatim>\<open>llama_state_set_data(ctx, src, size)\<close>, which returns the number of bytes read.
\<close>

record 'mem snapshot_runtime =
  llama_memory_clear :: "'mem \<Rightarrow> bool \<Rightarrow> 'mem"
  llama_state_set_data :: "'mem \<Rightarrow> 8 word list \<Rightarrow> nat \<times> 'mem"

text \<open>\<open>jState\<close> is the byte array, \<open>None\<close> when the reference is null.\<close>

definition stateRestore ::
  "'mem snapshot_runtime \<Rightarrow> EngineState \<Rightarrow> 'mem \<Rightarrow> 8 word list option \<Rightarrow> bool \<times> EngineState \<times> 'mem" where
  "stateRestore rt st mem jState =
     (case jState of
        None \<Rightarrow> (False, st, mem)
      | Some bytes \<Rightarrow>
          if ctx st = None then (False, st, mem)
          else if int (length bytes) \<le> 0 then (False, st, mem)
          else
            (let mem1 = llama_memory_clear rt mem False in
             case llama_state_set_data rt mem1 bytes of
               (read, mem2) \<Rightarrow>
                 (let ok = (0 < read) in
                  (ok, if ok then reset_metrics_locked st else st, mem2))))"

text \<open>
  \<open>jBuffer\<close>: \<open>None\<close> is a null reference, \<open>Some None\<close> a buffer for which
  \<^verbatim>\<open>GetDirectBufferAddress\<close> returns null, \<open>Some (Some bytes)\<close> a direct buffer with the bytes
  at its address. The runtime is handed the first \<open>length\<close> of them (the source does not
  compare \<open>length\<close> with the buffer's capacity).
\<close>

definition stateRestoreFrom ::
  "'mem snapshot_runtime \<Rightarrow> EngineState \<Rightarrow> 'mem \<Rightarrow> 8 word list option option \<Rightarrow> 32 word
     \<Rightarrow> bool \<times> EngineState \<times> 'mem" where
  "stateRestoreFrom rt st mem jBuffer len =
     (case jBuffer of
        None \<Rightarrow> (False, st, mem)
      | Some addr \<Rightarrow>
          if sint len \<le> 0 then (False, st, mem)
          else
            (case addr of
               None \<Rightarrow> (False, st, mem)
             | Some bytes \<Rightarrow>
                 if ctx st = None then (False, st, mem)
                 else
                   (let mem1 = llama_memory_clear rt mem False in
                    case llama_state_set_data rt mem1 (take (nat (sint len)) bytes) of
                      (read, mem2) \<Rightarrow>
                        (let ok = (0 < read) in
                         (ok, if ok then reset_metrics_locked st else st, mem2)))))"

section \<open>Streaming: \<^verbatim>\<open>StreamContext\<close>, \<^verbatim>\<open>emit_chunk\<close>, \<^verbatim>\<open>StreamDoneGuard\<close>\<close>

text \<open>
  A \<^verbatim>\<open>StreamContext\<close> holds the callback object and its method id; the fields say whether each
  is non-null. A \<^verbatim>\<open>StreamContext *\<close> is an \<open>option\<close>.
\<close>

record StreamContext =
  callback :: bool
  on_token :: bool

text \<open>
  What the Java side answers during one call of \<^verbatim>\<open>emit_chunk\<close>: whether \<^verbatim>\<open>NewStringUTF\<close>
  returns a string, and whether \<^verbatim>\<open>ExceptionCheck\<close> reports an exception after the callback.
\<close>

record jni_call =
  alloc_ok :: bool
  cb_throws :: bool

text \<open>
  \<^verbatim>\<open>text.c_str()\<close> is handed to \<^verbatim>\<open>NewStringUTF\<close>, which reads a C string: the bytes before
  the first NUL.
\<close>

definition c_str :: "string \<Rightarrow> string" where
  "c_str s = takeWhile (\<lambda>c. c \<noteq> CHR 0x00) s"

text \<open>
  \<^verbatim>\<open>emit_chunk\<close>, with the calls that the callback has received so far, in order, as a list
  of (text, done); it returns its result and the extended list.
\<close>

definition emit_chunk ::
  "StreamContext option \<Rightarrow> jni_call \<Rightarrow> string \<Rightarrow> bool \<Rightarrow> (string \<times> bool) list
     \<Rightarrow> bool \<times> (string \<times> bool) list" where
  "emit_chunk stream jni text done calls =
     (case stream of
        None \<Rightarrow> (True, calls)
      | Some sc \<Rightarrow>
          if \<not> callback sc \<or> \<not> on_token sc then (True, calls)
          else if \<not> done \<and> text = [] then (True, calls)
          else if \<not> alloc_ok jni then (False, calls)
          else (\<not> cb_throws jni, calls @ [(c_str text, done)]))"

section \<open>The generation pipeline: \<^verbatim>\<open>generate_internal\<close>\<close>

text \<open>
  The request, without the sampler settings (\<^verbatim>\<open>temperature\<close>, \<^verbatim>\<open>top_p\<close>, \<^verbatim>\<open>top_k\<close>): they
  configure the runtime's sampler chain, whose draws are the tokens of the environment below.
\<close>

record GenerationRequest =
  prompt :: string
  system_prompt :: string
  max_tokens :: int
  stops :: "string list"

text \<open>
  \<^verbatim>\<open>GenerationSummary\<close>; its members \<^verbatim>\<open>metrics\<close> and \<^verbatim>\<open>stop_sequence\<close> carry the prefix
  \<open>sum_\<close> (the session has fields of the same names).
\<close>

record GenerationSummary =
  sum_metrics :: EngineMetrics
  reason :: StopReason
  sum_stop_sequence :: string
  success :: bool

definition GenerationSummary_init :: GenerationSummary where
  "GenerationSummary_init =
     \<lparr>sum_metrics = EngineMetrics_init, reason = None_reason, sum_stop_sequence = [],
      success = False\<rparr>"

text \<open>
  What the runtime, the clock, the other threads and the Java side answer in iteration \<open>i\<close>
  of the decode loop: the abort flag as loaded at the top of the iteration, whether the sampled
  token is an end-of-generation token, the result and the buffer of \<^verbatim>\<open>llama_token_to_piece\<close>,
  the Java side's answers for the chunk of this iteration, the clock read for the time to the
  first token, and the result of \<^verbatim>\<open>llama_decode\<close> on the token.
\<close>

record step_env =
  abort_flag :: bool
  is_eog :: bool
  written :: int
  buffer :: string
  chunk_jni :: jni_call
  now_ms :: real
  decode_ret :: int

text \<open>
  The environment of one run: whether the vocabulary is there, \<^verbatim>\<open>llama_tokenize\<close> (by text and
  capacity of the output buffer), the result of the prefill \<^verbatim>\<open>llama_decode\<close>, whether the
  sampler chain is created, the iterations, the four clock reads (in milliseconds), and the
  Java side's answers for the flushed tail and for the terminal chunk.
\<close>

record gen_env =
  vocab :: bool
  llama_tokenize :: "string \<Rightarrow> nat \<Rightarrow> 32 word"
  prefill_ret :: int
  sampler :: bool
  step :: "nat \<Rightarrow> step_env"
  t_start_ms :: real
  t_prefill_end_ms :: real
  t_decode_start_ms :: real
  t_decode_end_ms :: real
  tail_jni :: jni_call
  done_jni :: jni_call

text \<open>
  \<^verbatim>\<open>prepare_prompt_tokens\<close>: the number of tokens, \<open>None\<close> when it returns false. The result
  of \<^verbatim>\<open>llama_tokenize\<close> is an \<^verbatim>\<open>int32_t\<close>, read as signed.
\<close>

definition prepare_prompt_tokens :: "gen_env \<Rightarrow> string \<Rightarrow> nat option" where
  "prepare_prompt_tokens env text =
     (let n = sint (llama_tokenize env text (length text + 8));
          n' = (if n < 0 then sint (llama_tokenize env text (nat (- n))) else n)
      in if n' < 0 then None else Some (nat n'))"

definition token_piece :: "step_env \<Rightarrow> string" where
  "token_piece e = (if 0 < written e then take (nat (written e)) (buffer e) else [])"

text \<open>
  The variables that the decode loop updates: the summary, the matcher, the calls received
  by the callback, the text behind \<^verbatim>\<open>out_text\<close> (\<open>None\<close> for a null pointer), and whether the
  abort flag was seen set.
\<close>

record loop_state =
  ls_summary :: GenerationSummary
  ls_stop_buffer :: StopBuffer
  ls_calls :: "(string \<times> bool) list"
  ls_out_text :: "string option"
  ls_aborted :: bool

text \<open>
  One iteration of the \<^verbatim>\<open>for\<close> loop; the first component is \<open>False\<close> when the iteration
  ends in \<^verbatim>\<open>break\<close>.
\<close>

definition loop_iteration ::
  "gen_env \<Rightarrow> StreamContext option \<Rightarrow> nat \<Rightarrow> loop_state \<Rightarrow> bool \<times> loop_state" where
  "loop_iteration env stream i ls =
     (let e = step env i; s = ls_summary ls; m = sum_metrics s in
      if abort_flag e then
        (False, ls\<lparr>ls_aborted := True,
                   ls_summary := s\<lparr>reason := Error, sum_metrics := m\<lparr>truncated := True\<rparr>\<rparr>\<rparr>)
      else if is_eog e then (False, ls\<lparr>ls_summary := s\<lparr>reason := Eos\<rparr>\<rparr>)
      else
        (case push (ls_stop_buffer ls) (token_piece e) of
           (emit, hit_stop, matched_stop, sb) \<Rightarrow>
             (case (if emit \<noteq> [] then emit_chunk stream (chunk_jni e) emit False (ls_calls ls)
                    else (True, ls_calls ls)) of
                (sent, calls) \<Rightarrow>
                  if \<not> sent then
                    (False, ls\<lparr>ls_stop_buffer := sb, ls_calls := calls,
                               ls_summary := s\<lparr>reason := Error\<rparr>\<rparr>)
                  else
                    (let out = (if emit \<noteq> [] then map_option (\<lambda>t. t @ emit) (ls_out_text ls)
                                else ls_out_text ls);
                         m1 = (if generation_tokens m = 0
                               then m\<lparr>ttfs_ms := dsub (now_ms e) (t_start_ms env)\<rparr> else m);
                         m2 = m1\<lparr>generation_tokens := generation_tokens m1 + 1\<rparr>;
                         ls1 = ls\<lparr>ls_stop_buffer := sb, ls_calls := calls, ls_out_text := out\<rparr>
                     in if decode_ret e \<noteq> 0 then
                          (False, ls1\<lparr>ls_summary :=
                                        s\<lparr>reason := Error, sum_metrics := m2\<lparr>truncated := True\<rparr>\<rparr>\<rparr>)
                        else if hit_stop then
                          (False, ls1\<lparr>ls_summary :=
                                        s\<lparr>reason := StopSequence,
                                          sum_stop_sequence := matched_stop,
                                          sum_metrics := m2\<rparr>\<rparr>)
                        else (True, ls1\<lparr>ls_summary := s\<lparr>sum_metrics := m2\<rparr>\<rparr>)))))"

text \<open>\<^verbatim>\<open>for (int i = 0; i < req.max_tokens; ++i)\<close>, from iteration \<open>i\<close> on.\<close>

function decode_loop ::
  "gen_env \<Rightarrow> GenerationRequest \<Rightarrow> StreamContext option \<Rightarrow> nat \<Rightarrow> loop_state \<Rightarrow> loop_state" where
  "decode_loop env req stream i ls =
     (if int i < max_tokens req then
        (case loop_iteration env stream i ls of
           (True, ls') \<Rightarrow> decode_loop env req stream (Suc i) ls'
         | (False, ls') \<Rightarrow> ls')
      else ls)"
  by pat_completeness auto
termination
  by (relation "measure (\<lambda>(env, req, stream, i, ls). nat (max_tokens req) - i)") auto

declare decode_loop.simps [simp del]

text \<open>
  The body of \<^verbatim>\<open>generate_internal\<close> up to its \<^verbatim>\<open>return\<close>: the returned flag, the summary,
  the session, the calls received by the callback, the text behind \<^verbatim>\<open>out_text\<close>, and the
  pointer that the \<^verbatim>\<open>StreamDoneGuard\<close> holds at that moment (\<open>None\<close> after \<^verbatim>\<open>dismiss\<close>).
\<close>

record body_result =
  br_ret :: bool
  br_summary :: GenerationSummary
  br_state :: EngineState
  br_calls :: "(string \<times> bool) list"
  br_out_text :: "string option"
  br_guard :: "StreamContext option"

text \<open>An early \<^verbatim>\<open>summary.reason = StopReason::Error; return false;\<close>.\<close>

definition early_error ::
  "EngineState \<Rightarrow> StreamContext option \<Rightarrow> string option \<Rightarrow> body_result" where
  "early_error st stream out_text =
     \<lparr>br_ret = False, br_summary = GenerationSummary_init\<lparr>reason := Error\<rparr>, br_state = st,
      br_calls = [], br_out_text = out_text, br_guard = stream\<rparr>"

text \<open>From the end of the loop to \<^verbatim>\<open>return summary.success\<close>.\<close>

definition after_loop ::
  "gen_env \<Rightarrow> EngineState \<Rightarrow> GenerationRequest \<Rightarrow> StreamContext option \<Rightarrow> loop_state
     \<Rightarrow> body_result" where
  "after_loop env st req stream ls =
     (let s = ls_summary ls; m = sum_metrics s;
          r1 = (if reason s = None_reason
                then (if max_tokens req \<le> generation_tokens m then MaxTokens else None_reason)
                else reason s);
          m1 = m\<lparr>decode_ms := dsub (t_decode_end_ms env) (t_decode_start_ms env),
                 total_ms := dsub (t_decode_end_ms env) (t_start_ms env)\<rparr>;
          m2 = (if 0 < decode_ms m1 \<and> 0 < generation_tokens m1
                then m1\<lparr>tps := ddiv (dmul (real_of_int (generation_tokens m1)) 1000)
                                    (decode_ms m1)\<rparr>
                else m1);
          m3 = (if 0 < n_ctx st
                then m2\<lparr>context_used_pct :=
                          ddiv (dmul (real_of_int
                                        (int32_add (prompt_tokens m2) (generation_tokens m2)))
                                  100)
                            (real_of_int (n_ctx st))\<rparr>
                else m2);
          m4 = m3\<lparr>truncated := (truncated m3 \<or> r1 = MaxTokens)\<rparr>;
          tail = fst (flush (ls_stop_buffer ls))
      in case (if tail \<noteq> [] \<and> r1 \<noteq> Error then
                 (case emit_chunk stream (tail_jni env) tail False (ls_calls ls) of
                    (sent, calls) \<Rightarrow>
                      if \<not> sent then (Error, calls, ls_out_text ls)
                      else (r1, calls, map_option (\<lambda>t. t @ tail) (ls_out_text ls)))
               else (r1, ls_calls ls, ls_out_text ls)) of
           (r2, calls, out) \<Rightarrow>
             (let ok = (r2 \<noteq> Error);
                  finished = (ok \<and> stream \<noteq> None)
              in \<lparr>br_ret = ok,
                  br_summary = s\<lparr>sum_metrics := m4, reason := r2, success := ok\<rparr>,
                  br_state = st\<lparr>should_abort := ls_aborted ls\<rparr>,
                  br_calls = (if finished then snd (emit_chunk stream (done_jni env) [] True calls)
                              else calls),
                  br_out_text = out,
                  br_guard = (if finished then None else stream)\<rparr>))"

text \<open>The prompt that is tokenized: the system prompt, a blank line, the prompt.\<close>

definition full_prompt :: "GenerationRequest \<Rightarrow> string" where
  "full_prompt req =
     (if system_prompt req = [] then prompt req
      else system_prompt req @ [CHR 0x0A, CHR 0x0A] @ prompt req)"

definition generate_body ::
  "gen_env \<Rightarrow> EngineState \<Rightarrow> GenerationRequest \<Rightarrow> StreamContext option \<Rightarrow> string option
     \<Rightarrow> body_result" where
  "generate_body env st req stream out_text =
     (if ctx st = None \<or> model st = None then early_error st stream out_text
      else
        (let st1 = st\<lparr>should_abort := False\<rparr> in
         if \<not> vocab env then early_error st1 stream out_text
         else
           (case prepare_prompt_tokens env (full_prompt req) of
              None \<Rightarrow> early_error st1 stream out_text
            | Some n \<Rightarrow>
                if prefill_ret env \<noteq> 0 then early_error st1 stream out_text
                else if \<not> sampler env then early_error st1 stream out_text
                else
                  (let m0 = EngineMetrics_init
                              \<lparr>prompt_tokens := int n,
                               prefill_ms := dsub (t_prefill_end_ms env) (t_start_ms env)\<rparr>;
                       m = (if 0 < prefill_ms m0
                            then m0\<lparr>prompt_tps :=
                                      ddiv (dmul (real_of_int (prompt_tokens m0)) 1000)
                                        (prefill_ms m0)\<rparr>
                            else m0);
                       ls0 = \<lparr>ls_summary = GenerationSummary_init\<lparr>sum_metrics := m\<rparr>,
                              ls_stop_buffer = StopBuffer_init (stops req),
                              ls_calls = [],
                              ls_out_text = out_text,
                              ls_aborted = False\<rparr>
                   in after_loop env st1 req stream (decode_loop env req stream 0 ls0)))))"

text \<open>
  The objects of the scope are destroyed in the reverse order of their construction:
  \<^verbatim>\<open>SummaryCommit\<close> first, then the lock, then the \<^verbatim>\<open>StreamDoneGuard\<close>.
\<close>

definition SummaryCommit_dtor :: "EngineState \<Rightarrow> GenerationSummary \<Rightarrow> EngineState" where
  "SummaryCommit_dtor st summary =
     st\<lparr>metrics := sum_metrics summary, stop_reason := reason summary,
        stop_sequence := sum_stop_sequence summary\<rparr>"

definition StreamDoneGuard_dtor ::
  "gen_env \<Rightarrow> StreamContext option \<Rightarrow> (string \<times> bool) list \<Rightarrow> (string \<times> bool) list" where
  "StreamDoneGuard_dtor env guard calls =
     (case guard of
        None \<Rightarrow> calls
      | Some sc \<Rightarrow> snd (emit_chunk (Some sc) (done_jni env) [] True calls))"

record gen_result =
  gr_ret :: bool
  gr_summary :: GenerationSummary
  gr_state :: EngineState
  gr_calls :: "(string \<times> bool) list"
  gr_out_text :: "string option"

definition generate_internal ::
  "gen_env \<Rightarrow> EngineState \<Rightarrow> GenerationRequest \<Rightarrow> StreamContext option \<Rightarrow> string option
     \<Rightarrow> gen_result" where
  "generate_internal env st req stream out_text =
     (let r = generate_body env st req stream out_text in
      \<lparr>gr_ret = br_ret r,
       gr_summary = br_summary r,
       gr_state = SummaryCommit_dtor (br_state r) (br_summary r),
       gr_calls = StreamDoneGuard_dtor env (br_guard r) (br_calls r),
       gr_out_text = br_out_text r\<rparr>)"

section \<open>The entry points \<^verbatim>\<open>generate\<close> and \<^verbatim>\<open>generateStream\<close>\<close>

text \<open>
  \<^verbatim>\<open>jstring_to_utf8\<close>: a null reference gives the empty string. Both entry points build the
  request in the same way; \<open>jStop\<close> is the array of stop strings, \<open>None\<close> when null.
\<close>

definition jstring_to_utf8 :: "string option \<Rightarrow> string" where
  "jstring_to_utf8 js = (case js of None \<Rightarrow> [] | Some s \<Rightarrow> s)"

definition build_request ::
  "string option \<Rightarrow> string option \<Rightarrow> 32 word \<Rightarrow> string option list option \<Rightarrow> GenerationRequest" where
  "build_request jPrompt jSystem maxTokens jStop =
     \<lparr>prompt = jstring_to_utf8 jPrompt,
      system_prompt = jstring_to_utf8 jSystem,
      max_tokens = max 1 (sint maxTokens),
      stops = (case jStop of None \<Rightarrow> [] | Some a \<Rightarrow> map jstring_to_utf8 a)\<rparr>"

text \<open>\<^verbatim>\<open>generate\<close>: the text handed to \<^verbatim>\<open>NewStringUTF\<close>, and the session after the run.\<close>

definition generate ::
  "gen_env \<Rightarrow> EngineState \<Rightarrow> string option \<Rightarrow> string option \<Rightarrow> 32 word \<Rightarrow> string option list option
     \<Rightarrow> string \<times> EngineState" where
  "generate env st jPrompt jSystem maxTokens jStop =
     (let r = generate_internal env st (build_request jPrompt jSystem maxTokens jStop)
                None (Some [])
      in (if \<not> gr_ret r then []
          else (case gr_out_text r of None \<Rightarrow> [] | Some output \<Rightarrow> c_str output),
          gr_state r))"

text \<open>
  \<^verbatim>\<open>generateStream\<close>: \<open>jCallback\<close> is \<open>None\<close> for a null callback, and otherwise says whether
  \<^verbatim>\<open>GetMethodID\<close> finds \<^verbatim>\<open>onToken\<close>. The result is the calls that the callback receives, and
  the session after the run.
\<close>

definition generateStream ::
  "gen_env \<Rightarrow> EngineState \<Rightarrow> string option \<Rightarrow> string option \<Rightarrow> 32 word \<Rightarrow> string option list option
     \<Rightarrow> bool option \<Rightarrow> (string \<times> bool) list \<times> EngineState" where
  "generateStream env st jPrompt jSystem maxTokens jStop jCallback =
     (case jCallback of
        Some False \<Rightarrow> ([], st)
      | _ \<Rightarrow>
          (let stream = (case jCallback of
                           None \<Rightarrow> None
                         | Some found \<Rightarrow> Some \<lparr>callback = True, on_token = found\<rparr>);
               r = generate_internal env st (build_request jPrompt jSystem maxTokens jStop)
                     stream None
           in (gr_calls r, gr_state r)))"

section \<open>Runs of the decode loop without a break\<close>

text \<open>
  The fragments of the iterations before \<open>i\<close>, and the matcher at the top of iteration \<open>i\<close>
  when every earlier iteration has pushed its fragment.
\<close>

definition pieces :: "gen_env \<Rightarrow> nat \<Rightarrow> string list" where
  "pieces env i = map (\<lambda>k. token_piece (step env k)) [0..<i]"

definition matcher_at :: "gen_env \<Rightarrow> GenerationRequest \<Rightarrow> nat \<Rightarrow> StopBuffer" where
  "matcher_at env req i = snd (push_seq (StopBuffer_init (stops req)) (pieces env i))"

text \<open>
  Iteration \<open>i\<close> runs to its end without a \<^verbatim>\<open>break\<close>: no cancellation, no end-of-generation
  token, the chunk (if any) is delivered, the decode succeeds, and the matcher reports no hit.
\<close>

definition quiet_step :: "gen_env \<Rightarrow> GenerationRequest \<Rightarrow> StreamContext option \<Rightarrow> nat \<Rightarrow> bool" where
  "quiet_step env req stream i =
     (let e = step env i in
      case push (matcher_at env req i) (token_piece e) of
        (emit, hit_stop, matched, sb) \<Rightarrow>
          \<not> abort_flag e \<and> \<not> is_eog e \<and> decode_ret e = 0 \<and> \<not> hit_stop \<and>
          (emit = [] \<or> fst (emit_chunk stream (chunk_jni e) emit False [])))"

text \<open>The text still held by the matcher after the loop is delivered (or there is none).\<close>

definition tail_delivered :: "gen_env \<Rightarrow> GenerationRequest \<Rightarrow> StreamContext option \<Rightarrow> bool" where
  "tail_delivered env req stream =
     (let tail = sb_pending (matcher_at env req (nat (max_tokens req))) in
      tail = [] \<or> fst (emit_chunk stream (tail_jni env) tail False []))"

text \<open>
  The calls received so far are text calls (done = false), each for a non-empty chunk over
  the characters \<open>A\<close>.
\<close>

definition text_calls :: "char set \<Rightarrow> (string \<times> bool) list \<Rightarrow> bool" where
  "text_calls A calls =
     (\<exists>chunks. calls = map (\<lambda>e. (c_str e, False)) chunks \<and>
               (\<forall>e\<in>set chunks. e \<noteq> [] \<and> set e \<subseteq> A))"

section \<open>Example sessions and environments\<close>

text \<open>
  Concrete inputs for the evaluated instances below: a session that holds a model and the
  metrics of an earlier run; runtimes for \<^verbatim>\<open>loadModel\<close> whose model file cannot be loaded, or
  can; runtimes for state restore that reject or accept the data (the working memory is a
  list of numbers); and a generation environment in which every iteration yields the fragment
  \<open>ab\<close> and nothing fails.
\<close>

definition loaded_session :: EngineState where
  "loaded_session =
     \<lparr>model = Some 1, ctx = Some 2, n_ctx = 4096, n_threads = 4, n_gpu_layers = 0,
      use_vulkan = True,
      metrics = EngineMetrics_init\<lparr>prompt_tokens := 100, generation_tokens := 50\<rparr>,
      stop_reason = Eos, stop_sequence = [], should_abort = False\<rparr>"

definition default_cparams :: llama_context_params where
  "default_cparams =
     \<lparr>cp_n_ctx = 512, cp_n_batch = 2048, cp_n_ubatch = 512, cp_n_threads = 4,
      cp_n_threads_batch = 4, cp_offload_kqv = True\<rparr>"

definition broken_model_file :: load_runtime where
  "broken_model_file =
     \<lparr>path_chars = Some ''m.gguf'', regular_file = (\<lambda>p. True),
      llama_model_load_from_file = (\<lambda>p g. None),
      llama_context_default_params = default_cparams,
      llama_init_from_model = (\<lambda>m c. Some 3)\<rparr>"

definition good_model_file :: load_runtime where
  "good_model_file =
     \<lparr>path_chars = Some ''m.gguf'', regular_file = (\<lambda>p. True),
      llama_model_load_from_file = (\<lambda>p g. Some 5),
      llama_context_default_params = default_cparams,
      llama_init_from_model = (\<lambda>m c. Some 6)\<rparr>"

definition rejecting_runtime :: "nat list snapshot_runtime" where
  "rejecting_runtime =
     \<lparr>llama_memory_clear = (\<lambda>mem data. []), llama_state_set_data = (\<lambda>mem bytes. (0, mem))\<rparr>"

definition accepting_runtime :: "nat list snapshot_runtime" where
  "accepting_runtime =
     \<lparr>llama_memory_clear = (\<lambda>mem data. []),
      llama_state_set_data = (\<lambda>mem bytes. (length bytes, map unat bytes))\<rparr>"

definition ok_jni :: jni_call where
  "ok_jni = \<lparr>alloc_ok = True, cb_throws = False\<rparr>"

definition valid_stream :: StreamContext where
  "valid_stream = \<lparr>callback = True, on_token = True\<rparr>"

definition quiet_iteration :: step_env where
  "quiet_iteration =
     \<lparr>abort_flag = False, is_eog = False, written = 2, buffer = ''ab'', chunk_jni = ok_jni,
      now_ms = 5, decode_ret = 0\<rparr>"

definition example_env :: gen_env where
  "example_env =
     \<lparr>vocab = True, llama_tokenize = (\<lambda>t cap. 100), prefill_ret = 0, sampler = True,
      step = (\<lambda>i. quiet_iteration),
      t_start_ms = 0, t_prefill_end_ms = 2, t_decode_start_ms = 3, t_decode_end_ms = 10,
      tail_jni = ok_jni, done_jni = ok_jni\<rparr>"

definition example_request :: "int \<Rightarrow> GenerationRequest" where
  "example_request n = \<lparr>prompt = ''hi'', system_prompt = [], max_tokens = n, stops = [''STOP'']\<rparr>"

section \<open>Properties of the stop-sequence matcher\<close>

lemma scan_stops_find:
  "scan_stops stop_list pending = find (\<lambda>s. s \<noteq> [] \<and> suffix s pending) stop_list"
proof (induction stop_list)
  case Nil
  show ?case by simp
next
  case (Cons stop rest)
  have "(length stop \<le> length pending \<and>
          take (length stop) (drop (length pending - length stop) pending) = stop)
        \<longleftrightarrow> suffix stop pending"
  proof
    assume a: "length stop \<le> length pending \<and>
          take (length stop) (drop (length pending - length stop) pending) = stop"
    then have "drop (length pending - length stop) pending = stop" by simp
    then have "pending = take (length pending - length stop) pending @ stop"
      by (metis append_take_drop_id)
    then show "suffix stop pending" by (metis suffixI)
  next
    assume "suffix stop pending"
    then obtain p where "pending = p @ stop" by (auto simp: suffix_def)
    then show "length stop \<le> length pending \<and>
          take (length stop) (drop (length pending - length stop) pending) = stop" by simp
  qed
  with Cons show ?case by simp
qed

lemma scan_stops_Some:
  "scan_stops stop_list pending = Some stop \<Longrightarrow>
     stop \<in> set stop_list \<and> stop \<noteq> [] \<and> suffix stop pending"
  unfolding scan_stops_find by (auto simp: find_Some_iff)

lemma push_stops [simp]: "sb_stops (snd (snd (snd (push sb piece)))) = sb_stops sb"
  by (simp add: push_def Let_def split: option.splits)

lemma push_max_stop [simp]: "sb_max_stop (snd (snd (snd (push sb piece)))) = sb_max_stop sb"
  by (simp add: push_def Let_def split: option.splits)

lemma push_conserves:
  "push sb piece = (emit, hit, matched, sb') \<Longrightarrow>
     emit @ (if hit then matched else []) @ sb_pending sb' = sb_pending sb @ piece"
proof -
  assume p: "push sb piece = (emit, hit, matched, sb')"
  define buf where "buf = sb_pending sb @ piece"
  have trim: "take (length buf - length stop) buf @ stop = buf"
    if "scan_stops (sb_stops sb) buf = Some stop" for stop
  proof -
    from scan_stops_Some [OF that] obtain q where "buf = q @ stop" by (auto simp: suffix_def)
    then show ?thesis by simp
  qed
  from p have "emit @ (if hit then matched else []) @ sb_pending sb' = buf"
    unfolding push_def Let_def buf_def [symmetric]
    by (auto split: option.splits if_splits simp: trim)
  then show ?thesis by (simp add: buf_def)
qed

lemma push_pending_bound:
  "1 \<le> sb_max_stop sb \<Longrightarrow>
     length (sb_pending (snd (snd (snd (push sb piece))))) \<le> sb_max_stop sb - 1"
  by (auto simp: push_def Let_def split: option.splits)

lemma push_seq_stops [simp]: "sb_stops (snd (push_seq sb frs)) = sb_stops sb"
proof (induction frs arbitrary: sb)
  case Nil show ?case by simp
next
  case (Cons f fs)
  obtain e h m sb' where p: "push sb f = (e, h, m, sb')" by (cases "push sb f") auto
  have "sb_stops sb' = sb_stops sb" using push_stops [of sb f] p by simp
  with Cons [of sb'] p show ?case by (cases "push_seq sb' fs") auto
qed

lemma push_seq_max_stop [simp]: "sb_max_stop (snd (push_seq sb frs)) = sb_max_stop sb"
proof (induction frs arbitrary: sb)
  case Nil show ?case by simp
next
  case (Cons f fs)
  obtain e h m sb' where p: "push sb f = (e, h, m, sb')" by (cases "push sb f") auto
  have "sb_max_stop sb' = sb_max_stop sb" using push_max_stop [of sb f] p by simp
  with Cons [of sb'] p show ?case by (cases "push_seq sb' fs") auto
qed

lemma push_seq_append:
  "push_seq sb (frs @ gs) =
     (case push_seq sb frs of (rs, sb') \<Rightarrow>
        (case push_seq sb' gs of (rs', sb'') \<Rightarrow> (rs @ rs', sb'')))"
  by (induction frs arbitrary: sb) (auto split: prod.splits)

lemma push_seq_snoc:
  "snd (push_seq sb (frs @ [f])) = snd (snd (snd (push (snd (push_seq sb frs)) f)))"
  by (simp add: push_seq_append split: prod.splits)

lemma push_seq_no_hit:
  "push_seq sb frs = (rs, sb') \<Longrightarrow> \<not> any_hit rs \<Longrightarrow>
     concat (map fst rs) @ sb_pending sb' = sb_pending sb @ concat frs"
proof (induction frs arbitrary: sb rs)
  case Nil
  then show ?case by simp
next
  case (Cons f fs)
  obtain e h m sb1 where p: "push sb f = (e, h, m, sb1)" by (cases "push sb f") auto
  obtain rs1 where q: "push_seq sb1 fs = (rs1, sb')" and rs: "rs = (e, h, m) # rs1"
    using Cons.prems(1) p by (auto split: prod.splits)
  from Cons.prems(2) rs have nh: "\<not> h" and nh1: "\<not> any_hit rs1" by (auto simp: any_hit_def)
  from push_conserves [OF p] nh have c: "e @ sb_pending sb1 = sb_pending sb @ f" by simp
  from Cons.IH [OF q nh1] have "concat (map fst rs1) @ sb_pending sb' = sb_pending sb1 @ concat fs" .
  then have "e @ concat (map fst rs1) @ sb_pending sb' = (e @ sb_pending sb1) @ concat fs" by simp
  with c rs show ?case by simp
qed

lemma max_stop_zero_iff:
  "foldl (\<lambda>m s. max m (length s)) k stop_list = 0 \<longleftrightarrow> k = 0 \<and> (\<forall>s\<in>set stop_list. s = [])"
  by (induction stop_list arbitrary: k) (auto simp: max_def)

lemma hit_gives_occurrence:
  "push_seq sb frs = (rs, sb') \<Longrightarrow> any_hit rs \<Longrightarrow>
     \<exists>s\<in>set (sb_stops sb). s \<noteq> [] \<and> sublist s (sb_pending sb @ concat frs)"
proof (induction frs arbitrary: sb rs)
  case Nil
  then show ?case by (simp add: any_hit_def)
next
  case (Cons f fs)
  obtain e h m sb1 where p: "push sb f = (e, h, m, sb1)" by (cases "push sb f") auto
  obtain rs1 where q: "push_seq sb1 fs = (rs1, sb')" and rs: "rs = (e, h, m) # rs1"
    using Cons.prems(1) p by (auto split: prod.splits)
  have st: "sb_stops sb1 = sb_stops sb" using push_stops [of sb f] p by simp
  show ?case
  proof (cases h)
    case True
    then have "scan_stops (sb_stops sb) (sb_pending sb @ f) = Some m"
      using p by (auto simp: push_def Let_def split: option.splits if_splits)
    from scan_stops_Some [OF this]
    have "m \<in> set (sb_stops sb)" "m \<noteq> []" "suffix m (sb_pending sb @ f)" by auto
    then obtain q where "sb_pending sb @ f = q @ m" by (auto simp: suffix_def)
    then have "sb_pending sb @ concat (f # fs) = q @ m @ concat fs" by simp
    then have "sublist m (sb_pending sb @ concat (f # fs))" unfolding sublist_def by blast
    with \<open>m \<in> set (sb_stops sb)\<close> \<open>m \<noteq> []\<close> show ?thesis by blast
  next
    case False
    with Cons.prems(2) rs have "any_hit rs1" by (simp add: any_hit_def)
    from Cons.IH [OF q this] st obtain s where
      s: "s \<in> set (sb_stops sb)" "s \<noteq> []" "sublist s (sb_pending sb1 @ concat fs)" by auto
    from push_conserves [OF p] False have "e @ sb_pending sb1 = sb_pending sb @ f" by simp
    then have "sb_pending sb @ concat (f # fs) = e @ (sb_pending sb1 @ concat fs)"
      by (metis append.assoc concat.simps(2))
    moreover from s(3) obtain ps ss where "sb_pending sb1 @ concat fs = ps @ s @ ss"
      unfolding sublist_def by blast
    ultimately have "sb_pending sb @ concat (f # fs) = (e @ ps) @ s @ ss" by simp
    then have "sublist s (sb_pending sb @ concat (f # fs))" unfolding sublist_def by blast
    with s show ?thesis by blast
  qed
qed

lemma foldl_max_Max:
  "foldl (\<lambda>m s. max m (length s)) k stop_list = Max (insert k (length ` set stop_list))"
proof (induction stop_list arbitrary: k)
  case Nil
  show ?case by simp
next
  case (Cons a stop_list)
  have "Max (insert (max k (length a)) (length ` set stop_list)) =
        Max (insert k (insert (length a) (length ` set stop_list)))"
    by (cases "set stop_list = {}") (simp_all add: max.assoc)
  with Cons show ?case by simp
qed

lemma max_stop_init: "sb_max_stop (StopBuffer_init stop_list) = longest_stop stop_list"
  by (simp add: StopBuffer_init_def longest_stop_def foldl_max_Max)

lemma init_fields [simp]:
  "sb_stops (StopBuffer_init stop_list) = stop_list" "sb_pending (StopBuffer_init stop_list) = []"
  by (simp_all add: StopBuffer_init_def)

lemma last_chars_append:
  "drop (length (drop (length r - n) r @ f) - n) (drop (length r - n) r @ f)
     = drop (length (r @ f) - n) (r @ f)"
  by (cases "length r \<le> n") (auto simp: add.commute)

lemma push_quiet_pending:
  assumes "push sb f = (e, False, m, sb')"
  shows "sb_pending sb' = drop (length (sb_pending sb @ f) - (sb_max_stop sb - 1)) (sb_pending sb @ f)"
  using assms by (auto simp: push_def Let_def split: option.splits if_splits)

lemma any_hit_append: "any_hit (rs @ rs') \<longleftrightarrow> any_hit rs \<or> any_hit rs'"
  by (auto simp: any_hit_def list_ex_iff)

lemma no_hit_pending:
  "push_seq (StopBuffer_init stop_list) frs = (rs, sb) \<Longrightarrow> \<not> any_hit rs \<Longrightarrow>
     sb_pending sb = drop (length (concat frs) - (longest_stop stop_list - 1)) (concat frs)"
proof (induction frs arbitrary: rs sb rule: rev_induct)
  case Nil
  then show ?case by auto
next
  case (snoc f frs)
  obtain rs0 sb0 where p0: "push_seq (StopBuffer_init stop_list) frs = (rs0, sb0)"
    by (cases "push_seq (StopBuffer_init stop_list) frs") auto
  obtain e h m sb1 where p1: "push sb0 f = (e, h, m, sb1)" by (cases "push sb0 f") auto
  from snoc.prems(1) p0 p1 have rs: "rs = rs0 @ [(e, h, m)]" and sb: "sb = sb1"
    by (simp_all add: push_seq_append)
  from snoc.prems(2) rs have nh0: "\<not> any_hit rs0" and nh: "\<not> h"
    by (simp_all add: any_hit_append) (simp add: any_hit_def)
  have L: "sb_max_stop sb0 = longest_stop stop_list"
    using push_seq_max_stop [of "StopBuffer_init stop_list" frs] p0 by (simp add: max_stop_init)
  from snoc.IH [OF p0 nh0]
  have pend: "sb_pending sb0 =
      drop (length (concat frs) - (longest_stop stop_list - 1)) (concat frs)" .
  from p1 nh have "push sb0 f = (e, False, m, sb1)" by simp
  from push_quiet_pending [OF this]
  have "sb_pending sb1 =
      drop (length (sb_pending sb0 @ f) - (longest_stop stop_list - 1)) (sb_pending sb0 @ f)"
    by (simp only: L)
  also have "\<dots> = drop (length (concat frs @ f) - (longest_stop stop_list - 1)) (concat frs @ f)"
    by (subst (1 2) pend) (rule last_chars_append)
  finally show ?case by (simp add: sb)
qed

lemma suffix_last_chars:
  "suffix s r \<Longrightarrow> length s \<le> n \<Longrightarrow> suffix s (drop (length r - n) r)"
  by (auto simp: suffix_def)

lemma stop_length_le: "s \<in> set stop_list \<Longrightarrow> length s \<le> longest_stop stop_list"
  by (simp add: longest_stop_def)

text \<open>After pushes without a hit the text pushed so far does not end with a stop.\<close>

lemma no_hit_no_stop_at_end:
  "push_seq (StopBuffer_init stop_list) frs = (rs, sb) \<Longrightarrow> \<not> any_hit rs \<Longrightarrow>
     \<not> ends_with_stop stop_list (concat frs)"
proof (induction frs arbitrary: rs sb rule: rev_induct)
  case Nil
  then show ?case by (simp add: ends_with_stop_def list_ex_iff)
next
  case (snoc f frs)
  obtain rs0 sb0 where p0: "push_seq (StopBuffer_init stop_list) frs = (rs0, sb0)"
    by (cases "push_seq (StopBuffer_init stop_list) frs") auto
  obtain e h m sb1 where p1: "push sb0 f = (e, h, m, sb1)" by (cases "push sb0 f") auto
  from snoc.prems(1) p0 p1 have rs: "rs = rs0 @ [(e, h, m)]"
    by (simp_all add: push_seq_append)
  from snoc.prems(2) rs have nh0: "\<not> any_hit rs0" and nh: "\<not> h"
    by (simp_all add: any_hit_append) (simp add: any_hit_def)
  have L: "sb_max_stop sb0 = longest_stop stop_list" and st: "sb_stops sb0 = stop_list"
    using push_seq_max_stop [of "StopBuffer_init stop_list" frs]
      push_seq_stops [of "StopBuffer_init stop_list" frs] p0
    by (simp_all add: max_stop_init)
  have pend: "sb_pending sb0 =
      drop (length (concat frs) - (longest_stop stop_list - 1)) (concat frs)"
    by (rule no_hit_pending [OF p0 nh0])
  have IH: "\<not> ends_with_stop stop_list (concat frs)" by (rule snoc.IH [OF p0 nh0])
  show ?case
  proof
    assume "ends_with_stop stop_list (concat (frs @ [f]))"
    then obtain s where s: "s \<in> set stop_list" "s \<noteq> []" "suffix s (concat frs @ f)"
      by (auto simp: ends_with_stop_def list_ex_iff)
    have sl: "length s \<le> longest_stop stop_list" by (rule stop_length_le [OF s(1)])
    have "suffix s (sb_pending sb0 @ f)"
    proof -
      from s(3) consider "suffix s f" | s1 where "s = s1 @ f" "suffix s1 (concat frs)"
        by (auto simp: suffix_append)
      then show ?thesis
      proof cases
        case 1
        then show ?thesis by (simp add: suffix_appendI)
      next
        case 2
        have "f \<noteq> []"
        proof
          assume "f = []"
          with 2 s(1,2) have "ends_with_stop stop_list (concat frs)"
            by (auto simp: ends_with_stop_def list_ex_iff)
          with IH show False by simp
        qed
        with 2(1) sl have "length s1 \<le> longest_stop stop_list - 1" by (cases f) auto
        from suffix_last_chars [OF 2(2) this] pend have "suffix s1 (sb_pending sb0)" by simp
        with 2(1) show ?thesis by simp
      qed
    qed
    with s(1,2) st have "find (\<lambda>s. s \<noteq> [] \<and> suffix s (sb_pending sb0 @ f)) (sb_stops sb0) \<noteq> None"
      by (auto simp: find_None_iff)
    then obtain m' where sc: "scan_stops (sb_stops sb0) (sb_pending sb0 @ f) = Some m'"
      by (auto simp: scan_stops_find)
    have "longest_stop stop_list \<noteq> 0" using sl s(2) by (cases s) auto
    with L sc p1 have h by (auto simp: push_def Let_def)
    with nh show False by simp
  qed
qed

text \<open>Before any hit, the buffer and the text pushed so far end with the same stops.\<close>

lemma buffer_suffix_iff:
  assumes p0: "push_seq (StopBuffer_init stop_list) frs = (rs0, sb0)" and nh0: "\<not> any_hit rs0"
    and s: "s \<in> set stop_list" "s \<noteq> []"
  shows "suffix s (sb_pending sb0 @ f) \<longleftrightarrow> suffix s (concat (frs @ [f]))"
proof
  assume a: "suffix s (sb_pending sb0 @ f)"
  have "suffix (sb_pending sb0) (concat frs)"
    using no_hit_pending [OF p0 nh0] by (simp add: suffix_drop)
  then have "suffix (sb_pending sb0 @ f) (concat frs @ f)" by (auto simp: suffix_def)
  with a show "suffix s (concat (frs @ [f]))" by (auto intro: suffix_order.trans)
next
  assume a: "suffix s (concat (frs @ [f]))"
  have sl: "length s \<le> longest_stop stop_list" by (rule stop_length_le [OF s(1)])
  have pend: "sb_pending sb0 =
      drop (length (concat frs) - (longest_stop stop_list - 1)) (concat frs)"
    by (rule no_hit_pending [OF p0 nh0])
  have IH: "\<not> ends_with_stop stop_list (concat frs)" by (rule no_hit_no_stop_at_end [OF p0 nh0])
  from a consider "suffix s f" | s1 where "s = s1 @ f" "suffix s1 (concat frs)"
    by (auto simp: suffix_append)
  then show "suffix s (sb_pending sb0 @ f)"
  proof cases
    case 1
    then show ?thesis by (simp add: suffix_appendI)
  next
    case 2
    have "f \<noteq> []"
    proof
      assume "f = []"
      with 2 s have "ends_with_stop stop_list (concat frs)"
        by (auto simp: ends_with_stop_def list_ex_iff)
      with IH show False by simp
    qed
    with 2(1) sl have "length s1 \<le> longest_stop stop_list - 1" by (cases f) auto
    from suffix_last_chars [OF 2(2) this] pend have "suffix s1 (sb_pending sb0)" by simp
    with 2(1) show ?thesis by simp
  qed
qed

text \<open>
  Before any hit, a push reports the first stop in configuration order with which the text
  pushed so far ends, and no hit when there is none.
\<close>

lemma push_after_quiet:
  assumes p0: "push_seq (StopBuffer_init stop_list) frs = (rs0, sb0)" and nh0: "\<not> any_hit rs0"
  shows "fst (snd (push sb0 f)) =
           (find (\<lambda>s. s \<noteq> [] \<and> suffix s (concat (frs @ [f]))) stop_list \<noteq> None) \<and>
         (\<forall>m. find (\<lambda>s. s \<noteq> [] \<and> suffix s (concat (frs @ [f]))) stop_list = Some m \<longrightarrow>
            fst (snd (snd (push sb0 f))) = m)"
proof -
  have L: "sb_max_stop sb0 = longest_stop stop_list" and st: "sb_stops sb0 = stop_list"
    using push_seq_max_stop [of "StopBuffer_init stop_list" frs]
      push_seq_stops [of "StopBuffer_init stop_list" frs] p0
    by (simp_all add: max_stop_init)
  have eq: "find (\<lambda>s. s \<noteq> [] \<and> suffix s (sb_pending sb0 @ f)) stop_list =
      find (\<lambda>s. s \<noteq> [] \<and> suffix s (concat (frs @ [f]))) stop_list"
    by (rule find_cong) (auto simp: buffer_suffix_iff [OF p0 nh0])
  show ?thesis
  proof (cases "find (\<lambda>s. s \<noteq> [] \<and> suffix s (concat (frs @ [f]))) stop_list")
    case None
    with eq st have "scan_stops (sb_stops sb0) (sb_pending sb0 @ f) = None"
      by (simp add: scan_stops_find)
    with None show ?thesis by (simp add: push_def Let_def)
  next
    case (Some m)
    with eq st have sc: "scan_stops (sb_stops sb0) (sb_pending sb0 @ f) = Some m"
      by (simp add: scan_stops_find)
    from scan_stops_Some [OF sc] st have "m \<in> set stop_list" "m \<noteq> []" by auto
    with stop_length_le [of m stop_list] have "longest_stop stop_list \<noteq> 0" by (cases m) auto
    with L sc Some show ?thesis by (simp add: push_def Let_def)
  qed
qed

lemma push_seq_take:
  "fst (push_seq sb (take k frs)) = take k (fst (push_seq sb frs))"
proof (induction frs arbitrary: sb k)
  case Nil
  show ?case by simp
next
  case (Cons f fs)
  show ?case
  proof (cases k)
    case 0
    then show ?thesis by simp
  next
    case (Suc k')
    obtain e h m sb' where p: "push sb f = (e, h, m, sb')" by (cases "push sb f") auto
    with Suc Cons [of sb' k'] show ?thesis
      by (cases "push_seq sb' fs"; cases "push_seq sb' (take k' fs)") simp
  qed
qed

lemma any_hit_iff_stop_at_boundary:
  "any_hit (fst (push_seq (StopBuffer_init stop_list) frs)) \<longleftrightarrow>
     (\<exists>k\<le>length frs. ends_with_stop stop_list (concat (take k frs)))"
proof (induction frs rule: rev_induct)
  case Nil
  show ?case by (simp add: any_hit_def ends_with_stop_def list_ex_iff)
next
  case (snoc f frs)
  obtain rs0 sb0 where p0: "push_seq (StopBuffer_init stop_list) frs = (rs0, sb0)"
    by (cases "push_seq (StopBuffer_init stop_list) frs") auto
  obtain e h m sb1 where p1: "push sb0 f = (e, h, m, sb1)" by (cases "push sb0 f") auto
  have rs: "fst (push_seq (StopBuffer_init stop_list) (frs @ [f])) = rs0 @ [(e, h, m)]"
    using p0 p1 by (simp add: push_seq_append)
  have split: "(\<exists>k\<le>length (frs @ [f]). ends_with_stop stop_list (concat (take k (frs @ [f])))) \<longleftrightarrow>
      (\<exists>k\<le>length frs. ends_with_stop stop_list (concat (take k frs))) \<or>
      ends_with_stop stop_list (concat (frs @ [f]))"
  proof -
    have "(\<exists>k\<le>Suc (length frs). P k) \<longleftrightarrow> (\<exists>k\<le>length frs. P k) \<or> P (Suc (length frs))" for P
      by (metis le_Suc_eq)
    from this [of "\<lambda>k. ends_with_stop stop_list (concat (take k (frs @ [f])))"]
    show ?thesis by auto
  qed
  show ?case
  proof (cases "any_hit rs0")
    case True
    with snoc p0 rs split show ?thesis by (simp add: any_hit_append)
  next
    case False
    from push_after_quiet [OF p0 False, of f] p1
    have "h \<longleftrightarrow> ends_with_stop stop_list (concat (frs @ [f]))"
      by (auto simp: ends_with_stop_def list_ex_iff find_None_iff)
    with False snoc p0 rs split show ?thesis by (auto simp: any_hit_append any_hit_def)
  qed
qed

text \<open>
  Claim C1, as amended. For every stop list and every sequence of pushed fragments:
  \<^item> some push reports a hit exactly when, after some fragment, the text pushed so far ends
    with a non-empty configured stop string;
  \<^item> if no push reports a hit, the texts returned by the pushes followed by the text returned
    by \<^verbatim>\<open>flush\<close> are the concatenation of the fragments, unmodified; this is so in particular
    when no non-empty configured stop string occurs in that concatenation;
  \<^item> as long as no earlier push has reported a hit, a push reports a hit exactly when the text
    pushed so far ends with a non-empty configured stop string; the matched stop is then the
    first such stop in configuration order, and, this push being the last one (the pipeline
    pushes nothing after a hit), the texts returned by the pushes and by \<^verbatim>\<open>flush\<close> are the
    concatenation of the fragments with the matched stop removed from its end.
  A stop that does not end where a fragment ends is not detected.
\<close>

theorem stop_matching_output:
  "(any_hit (fst (push_seq (StopBuffer_init stop_list) frs)) \<longleftrightarrow>
      (\<exists>k\<le>length frs. ends_with_stop stop_list (concat (take k frs)))) \<and>
   (\<not> any_hit (fst (push_seq (StopBuffer_init stop_list) frs)) \<longrightarrow>
      total_output stop_list frs = concat frs) \<and>
   (\<not> stop_occurs stop_list (concat frs) \<longrightarrow> total_output stop_list frs = concat frs) \<and>
   (\<not> any_hit (fst (push_seq (StopBuffer_init stop_list) frs)) \<longrightarrow>
      (fst (snd (push (snd (push_seq (StopBuffer_init stop_list) frs)) f)) \<longleftrightarrow>
         ends_with_stop stop_list (concat (frs @ [f])))) \<and>
   (\<not> any_hit (fst (push_seq (StopBuffer_init stop_list) frs)) \<and>
    find (\<lambda>s. s \<noteq> [] \<and> suffix s (concat (frs @ [f]))) stop_list = Some m \<longrightarrow>
      fst (snd (push (snd (push_seq (StopBuffer_init stop_list) frs)) f)) \<and>
      fst (snd (snd (push (snd (push_seq (StopBuffer_init stop_list) frs)) f))) = m \<and>
      total_output stop_list (frs @ [f]) @ m = concat (frs @ [f]) \<and>
      total_output stop_list (frs @ [f]) =
        take (length (concat (frs @ [f])) - length m) (concat (frs @ [f]))) \<and>
   (\<not> any_hit (fst (push_seq (StopBuffer_init stop_list) frs)) \<and>
    push (snd (push_seq (StopBuffer_init stop_list) frs)) f = (emit, True, matched, sb') \<longrightarrow>
      total_output stop_list (frs @ [f]) @ matched = concat (frs @ [f]) \<and>
      total_output stop_list (frs @ [f]) =
        take (length (concat (frs @ [f])) - length matched) (concat (frs @ [f])) \<and>
      matched \<in> set stop_list \<and> matched \<noteq> [])"
proof -
  obtain rs sb where ps: "push_seq (StopBuffer_init stop_list) frs = (rs, sb)"
    by (cases "push_seq (StopBuffer_init stop_list) frs") auto
  have bnd: "any_hit rs \<longleftrightarrow> (\<exists>k\<le>length frs. ends_with_stop stop_list (concat (take k frs)))"
    using any_hit_iff_stop_at_boundary [of stop_list frs] ps by simp
  have quiet: "total_output stop_list frs = concat frs" if "\<not> any_hit rs"
    using push_seq_no_hit [OF ps that] ps by (simp add: total_output_def flush_def)
  have occ: "\<not> any_hit rs" if "\<not> stop_occurs stop_list (concat frs)"
  proof
    assume "any_hit rs"
    from hit_gives_occurrence [OF ps this] that show False
      by (auto simp: stop_occurs_def list_ex_iff)
  qed
  have hit: "total_output stop_list (frs @ [f]) @ mm = concat (frs @ [f]) \<and>
      total_output stop_list (frs @ [f]) =
        take (length (concat (frs @ [f])) - length mm) (concat (frs @ [f])) \<and>
      mm \<in> set stop_list \<and> mm \<noteq> []"
    if nh: "\<not> any_hit rs" and p: "push sb f = (ee, True, mm, sb1)" for ee mm sb1
  proof -
    from push_seq_no_hit [OF ps nh] have a: "concat (map fst rs) @ sb_pending sb = concat frs"
      by simp
    from push_conserves [OF p] have b: "ee @ mm @ sb_pending sb1 = sb_pending sb @ f"
      by simp
    have "scan_stops (sb_stops sb) (sb_pending sb @ f) = Some mm"
      using p by (auto simp: push_def Let_def split: option.splits if_splits)
    from scan_stops_Some [OF this] have m: "mm \<in> set stop_list" "mm \<noteq> []"
      using push_seq_stops [of "StopBuffer_init stop_list" frs] ps by auto
    have c: "sb_pending sb1 = []"
      using p by (auto simp: push_def Let_def split: option.splits if_splits)
    have out: "total_output stop_list (frs @ [f]) = concat (map fst rs) @ ee"
      using ps p c by (simp add: total_output_def push_seq_append flush_def)
    have "concat (frs @ [f]) = (concat (map fst rs) @ sb_pending sb) @ f" using a by simp
    also have "\<dots> = concat (map fst rs) @ ee @ mm" using b c by simp
    finally have raw: "concat (frs @ [f]) = total_output stop_list (frs @ [f]) @ mm"
      using out by simp
    then have "take (length (concat (frs @ [f])) - length mm) (concat (frs @ [f])) =
               total_output stop_list (frs @ [f])" by simp
    with raw m show ?thesis by simp
  qed
  have det: "fst (snd (push sb f)) \<longleftrightarrow> ends_with_stop stop_list (concat (frs @ [f]))"
    if nh: "\<not> any_hit rs"
    using push_after_quiet [OF ps nh, of f]
    by (auto simp: ends_with_stop_def list_ex_iff find_None_iff)
  have first: "fst (snd (push sb f)) \<and> fst (snd (snd (push sb f))) = m \<and>
      total_output stop_list (frs @ [f]) @ m = concat (frs @ [f]) \<and>
      total_output stop_list (frs @ [f]) =
        take (length (concat (frs @ [f])) - length m) (concat (frs @ [f]))"
    if nh: "\<not> any_hit rs"
      and f: "find (\<lambda>s. s \<noteq> [] \<and> suffix s (concat (frs @ [f]))) stop_list = Some m"
  proof -
    from push_after_quiet [OF ps nh, of f] f
    have h: "fst (snd (push sb f))" "fst (snd (snd (push sb f))) = m" by simp_all
    then obtain ee sb1 where "push sb f = (ee, True, m, sb1)" by (cases "push sb f") auto
    from hit [OF nh this] h show ?thesis by blast
  qed
  have sb: "snd (push_seq (StopBuffer_init stop_list) frs) = sb"
    and rs: "fst (push_seq (StopBuffer_init stop_list) frs) = rs"
    using ps by simp_all
  show ?thesis
    unfolding sb rs using bnd quiet occ hit det first by blast
qed

text \<open>
  Witness for C1: the stop \<open>STOP\<close> split over the fragments \<open>heST\<close> and \<open>OP\<close>.
\<close>

theorem stop_matching_output_witness:
  "\<not> any_hit (fst (push_seq (StopBuffer_init [''STOP'']) [''heST''])) \<and>
   total_output [''STOP''] [''heST''] = ''heST'' \<and>
   \<not> stop_occurs [''STOP''] (concat [''heST'']) \<and>
   ends_with_stop [''STOP''] (concat ([''heST''] @ [''OP''])) \<and>
   find (\<lambda>s. s \<noteq> [] \<and> suffix s (concat ([''heST''] @ [''OP'']))) [''STOP''] = Some ''STOP'' \<and>
   push (snd (push_seq (StopBuffer_init [''STOP'']) [''heST''])) ''OP''
     = (''e'', True, ''STOP'', \<lparr>sb_stops = [''STOP''], sb_max_stop = 4, sb_pending = []\<rparr>) \<and>
   total_output [''STOP''] ([''heST''] @ [''OP'']) = ''he'' \<and>
   any_hit (fst (push_seq (StopBuffer_init [''STOP'']) ([''heST''] @ [''OP''])))"
  using stop_matching_output [of "[''STOP'']" "[''heST'']" "''OP''" "''STOP''" "''e''" "''STOP''"
      "\<lparr>sb_stops = [''STOP''], sb_max_stop = 4, sb_pending = []\<rparr>"]
  by (simp add: StopBuffer_init_def push_def flush_def any_hit_def stop_occurs_def
      ends_with_stop_def suffix_def sublist_Cons_right)

text \<open>
  Counterexample to C1 as stated: with the stop \<open>ab\<close> and the single fragment \<open>xabz\<close>, the
  stop occurs in the raw text, yet the output is the raw text with nothing removed; it is
  neither the raw text without the stop (\<open>xz\<close>) nor the raw text cut before it (\<open>x\<close>).
  \<^verbatim>\<open>push\<close> compares the stops with the end of the buffer only, and here the buffer ends in
  \<open>z\<close>.
\<close>

theorem stop_matching_counterexample:
  "stop_occurs [''ab''] (concat [''xabz'']) \<and>
   total_output [''ab''] [''xabz''] = ''xabz'' \<and>
   spec_output [''ab''] [''xabz''] = ''xz'' \<and>
   total_output [''ab''] [''xabz''] \<noteq> spec_output [''ab''] [''xabz''] \<and>
   total_output [''ab''] [''xabz''] \<noteq> ''x''"
  by (simp add: total_output_def StopBuffer_init_def push_def flush_def spec_output_def
      suffix_def stop_occurs_def sublist_Cons_right)

text \<open>
  Claim C5. For every stop list whose longest stop has length \<open>L \<ge> 1\<close> and every sequence of
  pushed fragments, after each push the pending buffer of the matcher holds at most \<open>L - 1\<close>
  characters. (After a push that reports a hit it is empty.)
\<close>

theorem pending_bounded:
  "1 \<le> longest_stop stop_list \<Longrightarrow>
     length (sb_pending (snd (push_seq (StopBuffer_init stop_list) (frs @ [f]))))
       \<le> longest_stop stop_list - 1"
proof -
  assume L: "1 \<le> longest_stop stop_list"
  let ?sb = "snd (push_seq (StopBuffer_init stop_list) frs)"
  have m: "sb_max_stop ?sb = longest_stop stop_list" by (simp add: max_stop_init)
  with L have "1 \<le> sb_max_stop ?sb" by simp
  from push_pending_bound [OF this, of f] m show ?thesis by (simp add: push_seq_snoc)
qed

text \<open>Witness for C5: stops of lengths 4 and 2, three characters held back.\<close>

theorem pending_bounded_witness:
  "1 \<le> longest_stop [''STOP'', ''ab''] \<and> longest_stop [''STOP'', ''ab''] = 4 \<and>
   sb_pending (snd (push_seq (StopBuffer_init [''STOP'', ''ab'']) ([''hello wo''] @ [''rld S''])))
     = ''d S'' \<and>
   length (sb_pending (snd (push_seq (StopBuffer_init [''STOP'', ''ab''])
     ([''hello wo''] @ [''rld S''])))) \<le> longest_stop [''STOP'', ''ab''] - 1"
  using pending_bounded [of "[''STOP'', ''ab'']" "[''hello wo'']" "''rld S''"]
  by (simp add: longest_stop_def StopBuffer_init_def push_def)

text \<open>
  Claim C6. On each push, with \<open>buf\<close> the buffer after appending the fragment: if no stop
  string is configured (\<open>L = 0\<close>, that is, every configured stop is empty) the whole buffer is
  emitted and the buffer cleared; otherwise, when some non-empty stop is a suffix of the
  buffer, the push reports a hit for the first such stop in configuration order (not the
  longest), emits the buffer without that suffix, and clears the buffer.
\<close>

theorem push_first_match:
  assumes "sb = snd (push_seq (StopBuffer_init stop_list) frs)"
    and "buf = sb_pending sb @ piece"
  shows "(longest_stop stop_list = 0 \<longrightarrow> push sb piece = (buf, False, [], sb\<lparr>sb_pending := []\<rparr>)) \<and>
    (longest_stop stop_list = 0 \<longleftrightarrow> (\<forall>s\<in>set stop_list. s = [])) \<and>
    (\<forall>s. find (\<lambda>s. s \<noteq> [] \<and> suffix s buf) stop_list = Some s \<longrightarrow>
       push sb piece = (take (length buf - length s) buf, True, s, sb\<lparr>sb_pending := []\<rparr>))"
proof -
  have m: "sb_max_stop sb = longest_stop stop_list" and st: "sb_stops sb = stop_list"
    using assms(1) by (simp_all add: max_stop_init)
  have z: "longest_stop stop_list = 0 \<longleftrightarrow> (\<forall>s\<in>set stop_list. s = [])"
    using max_stop_zero_iff [of 0 stop_list] max_stop_init [of stop_list]
    by (simp add: StopBuffer_init_def)
  have a: "push sb piece = (buf, False, [], sb\<lparr>sb_pending := []\<rparr>)" if "longest_stop stop_list = 0"
    using that m assms(2) by (simp add: push_def)
  have b: "push sb piece = (take (length buf - length s) buf, True, s, sb\<lparr>sb_pending := []\<rparr>)"
    if f: "find (\<lambda>s. s \<noteq> [] \<and> suffix s buf) stop_list = Some s" for s
  proof -
    from f have "s \<in> set stop_list" "s \<noteq> []" by (auto simp: find_Some_iff)
    with z have "longest_stop stop_list \<noteq> 0" by auto
    with m have "sb_max_stop sb \<noteq> 0" by simp
    moreover have "scan_stops (sb_stops sb) buf = Some s" using f st by (simp add: scan_stops_find)
    ultimately show ?thesis using assms(2) by (simp add: push_def)
  qed
  from a b z show ?thesis by blast
qed

text \<open>
  Witness for C6: with the stops \<open>b\<close>, \<open>ab\<close> in this order and the buffer \<open>xab\<close>, the
  shorter stop \<open>b\<close> is matched; with only an empty stop the fragment passes through.
\<close>

theorem push_first_match_witness:
  "push (snd (push_seq (StopBuffer_init [''b'', ''ab'']) [''x''])) ''ab''
     = (''xa'', True, ''b'', \<lparr>sb_stops = [''b'', ''ab''], sb_max_stop = 2, sb_pending = []\<rparr>) \<and>
   find (\<lambda>s. s \<noteq> [] \<and> suffix s ''xab'') [''b'', ''ab''] = Some ''b'' \<and>
   longest_stop [[]] = 0 \<and>
   push (snd (push_seq (StopBuffer_init [[]]) [''x''])) ''ab''
     = (''ab'', False, [], \<lparr>sb_stops = [[]], sb_max_stop = 0, sb_pending = []\<rparr>)"
  using push_first_match [of "snd (push_seq (StopBuffer_init [''b'', ''ab'']) [''x''])"
      "[''b'', ''ab'']" "[''x'']" "''xab''" "''ab''"]
    push_first_match [of "snd (push_seq (StopBuffer_init [[]]) [''x''])"
      "[[]]" "[''x'']" "''ab''" "''ab''"]
  by (simp add: longest_stop_def StopBuffer_init_def push_def suffix_def)

section \<open>Properties of \<^verbatim>\<open>loadModel\<close> and of state restore\<close>

lemma clamped_n_ctx: "sint (word_of_int (max 512 (sint nCtx)) :: 32 word) = max 512 (sint nCtx)"
  for nCtx :: "32 word"
proof -
  have "sint nCtx < 2 ^ 31" using sint_lt [of nCtx] by simp
  then have "max 512 (sint nCtx) < 2 ^ 31" by simp
  moreover have "- (2 ^ 31) \<le> max 512 (sint nCtx)" by simp
  ultimately have "signed_take_bit 31 (max 512 (sint nCtx)) = max 512 (sint nCtx)"
    by (intro signed_take_bit_int_eq_self) simp_all
  then show ?thesis by (simp only: sint_sbintrunc') simp
qed

lemma load_cparams_n_ctx:
  "cp_n_ctx (load_cparams dflt nThreads nCtx useVulkan) = word_of_int (max 512 (sint nCtx))"
  by (simp add: load_cparams_def Let_def)

lemma load_cparams_n_threads:
  "cp_n_threads (load_cparams dflt nThreads nCtx useVulkan) = max 1 (sint nThreads)"
  by (simp add: load_cparams_def Let_def)

lemma unload_locked_fields:
  "model (unload_locked st) = None" "ctx (unload_locked st) = None"
  "metrics (unload_locked st) = EngineMetrics_init"
  "stop_reason (unload_locked st) = None_reason" "stop_sequence (unload_locked st) = []"
  "should_abort (unload_locked st) = False"
  "n_ctx (unload_locked st) = n_ctx st" "n_threads (unload_locked st) = n_threads st"
  "n_gpu_layers (unload_locked st) = n_gpu_layers st" "use_vulkan (unload_locked st) = use_vulkan st"
  by (simp_all add: unload_locked_def reset_metrics_locked_def)

text \<open>
  Claim C2, as amended. \<^verbatim>\<open>loadModel\<close> fails with the session unchanged when the model file is
  missing (no path, or not a regular file). When the file is there and the model handle or the
  context handle fails to construct, \<^verbatim>\<open>loadModel\<close> fails with the session unloaded:
  \<^verbatim>\<open>unload_locked\<close> has run before the load is tried, so both handles are null and the
  metrics and stop-state are reset, while the recorded configuration is unchanged.
\<close>

theorem loadModel_failure:
  "(\<not> file_exists rt (path_chars rt) \<longrightarrow>
      loadModel rt st nThreads nCtx nGpuLayers useVulkan = (False, st)) \<and>
   (path_chars rt = Some path \<and> regular_file rt path \<and>
    llama_model_load_from_file rt path (if useVulkan then sint nGpuLayers else 0) = None \<longrightarrow>
      loadModel rt st nThreads nCtx nGpuLayers useVulkan = (False, unload_locked st)) \<and>
   (path_chars rt = Some path \<and> regular_file rt path \<and>
    llama_model_load_from_file rt path (if useVulkan then sint nGpuLayers else 0) = Some mdl \<and>
    llama_init_from_model rt mdl
      (load_cparams (llama_context_default_params rt) nThreads nCtx useVulkan) = None \<longrightarrow>
      loadModel rt st nThreads nCtx nGpuLayers useVulkan = (False, unload_locked st)) \<and>
   model (unload_locked st) = None \<and> ctx (unload_locked st) = None \<and>
   metrics (unload_locked st) = EngineMetrics_init \<and>
   stop_reason (unload_locked st) = None_reason \<and> stop_sequence (unload_locked st) = [] \<and>
   n_ctx (unload_locked st) = n_ctx st \<and> n_threads (unload_locked st) = n_threads st \<and>
   n_gpu_layers (unload_locked st) = n_gpu_layers st \<and>
   use_vulkan (unload_locked st) = use_vulkan st"
  by (simp add: loadModel_def file_exists_def Let_def unload_locked_fields split: option.splits)

text \<open>
  Witness for C2: a missing file, a file that the runtime cannot load, and a model for which
  no context can be created, each on a session that holds a loaded model.
\<close>

theorem loadModel_failure_witness:
  "loadModel (broken_model_file\<lparr>regular_file := (\<lambda>p. False)\<rparr>) loaded_session 4 2048 0 True
     = (False, loaded_session) \<and>
   loadModel broken_model_file loaded_session 4 2048 0 True = (False, unload_locked loaded_session) \<and>
   loadModel (good_model_file\<lparr>llama_init_from_model := (\<lambda>m c. None)\<rparr>) loaded_session 4 2048 0 True
     = (False, unload_locked loaded_session) \<and>
   n_ctx (unload_locked loaded_session) = 4096"
  using loadModel_failure [of "broken_model_file\<lparr>regular_file := (\<lambda>p. False)\<rparr>" loaded_session
      4 2048 0 True "''m.gguf''" 0]
    loadModel_failure [of broken_model_file loaded_session 4 2048 0 True "''m.gguf''" 0]
    loadModel_failure [of "good_model_file\<lparr>llama_init_from_model := (\<lambda>m c. None)\<rparr>"
      loaded_session 4 2048 0 True "''m.gguf''" 5]
  by (simp add: broken_model_file_def good_model_file_def file_exists_def loaded_session_def)

text \<open>
  Counterexample to C2 as stated: the session holds a model, a context and metrics of a run;
  the file exists but the runtime cannot load it. \<^verbatim>\<open>loadModel\<close> fails, and the session has
  lost both handles, its metrics and its stop reason.
\<close>

theorem loadModel_failure_counterexample:
  "fst (loadModel broken_model_file loaded_session 4 2048 0 True) = False \<and>
   snd (loadModel broken_model_file loaded_session 4 2048 0 True) \<noteq> loaded_session \<and>
   model loaded_session = Some 1 \<and>
   model (snd (loadModel broken_model_file loaded_session 4 2048 0 True)) = None \<and>
   ctx loaded_session = Some 2 \<and>
   ctx (snd (loadModel broken_model_file loaded_session 4 2048 0 True)) = None \<and>
   generation_tokens (metrics loaded_session) = 50 \<and>
   generation_tokens (metrics (snd (loadModel broken_model_file loaded_session 4 2048 0 True))) = 0 \<and>
   stop_reason loaded_session = Eos \<and>
   stop_reason (snd (loadModel broken_model_file loaded_session 4 2048 0 True)) = None_reason"
proof -
  have l: "loadModel broken_model_file loaded_session 4 2048 0 True
             = (False, unload_locked loaded_session)"
    by (simp add: loadModel_def broken_model_file_def file_exists_def)
  have "model (unload_locked loaded_session) \<noteq> model loaded_session"
    by (simp add: unload_locked_fields) (simp add: loaded_session_def)
  then have "unload_locked loaded_session \<noteq> loaded_session" by auto
  with l show ?thesis
    by (simp add: unload_locked_fields) (simp add: loaded_session_def EngineMetrics_init_def)
qed

text \<open>
  Claim C3, as amended. \<^verbatim>\<open>stateRestore\<close> and \<^verbatim>\<open>stateRestoreFrom\<close> return success if and only
  if a context is live, the input buffer is non-null and non-empty (for \<^verbatim>\<open>stateRestoreFrom\<close>:
  a direct buffer, with a positive length argument), and the runtime reports a non-zero number
  of bytes read. On success the metrics and stop-state are reset; on failure the session's own
  fields are unchanged. The working memory of the context is untouched when the call fails
  before reaching the runtime (no context, null or empty buffer); once the runtime is reached
  the working memory has been cleared and is what the runtime leaves after the load, also
  when the runtime rejects the data.
\<close>

theorem stateRestore_result:
  "(fst (stateRestore rt st mem jState) \<longleftrightarrow>
      ctx st \<noteq> None \<and>
      (\<exists>bytes. jState = Some bytes \<and> bytes \<noteq> [] \<and>
         0 < fst (llama_state_set_data rt (llama_memory_clear rt mem False) bytes))) \<and>
   (fst (stateRestoreFrom rt st mem jBuffer len) \<longleftrightarrow>
      ctx st \<noteq> None \<and> 0 < sint len \<and>
      (\<exists>bytes. jBuffer = Some (Some bytes) \<and>
         0 < fst (llama_state_set_data rt (llama_memory_clear rt mem False)
                    (take (nat (sint len)) bytes)))) \<and>
   fst (snd (stateRestore rt st mem jState)) =
     (if fst (stateRestore rt st mem jState) then reset_metrics_locked st else st) \<and>
   fst (snd (stateRestoreFrom rt st mem jBuffer len)) =
     (if fst (stateRestoreFrom rt st mem jBuffer len) then reset_metrics_locked st else st) \<and>
   snd (snd (stateRestore rt st mem jState)) =
     (case jState of
        None \<Rightarrow> mem
      | Some bytes \<Rightarrow>
          if ctx st = None \<or> bytes = [] then mem
          else snd (llama_state_set_data rt (llama_memory_clear rt mem False) bytes)) \<and>
   snd (snd (stateRestoreFrom rt st mem jBuffer len)) =
     (case jBuffer of
        Some (Some bytes) \<Rightarrow>
          if ctx st = None \<or> sint len \<le> 0 then mem
          else snd (llama_state_set_data rt (llama_memory_clear rt mem False)
                      (take (nat (sint len)) bytes))
      | _ \<Rightarrow> mem) \<and>
   metrics (reset_metrics_locked st) = EngineMetrics_init \<and>
   stop_reason (reset_metrics_locked st) = None_reason \<and>
   stop_sequence (reset_metrics_locked st) = []"
proof -
  have a: "metrics (reset_metrics_locked st) = EngineMetrics_init \<and>
      stop_reason (reset_metrics_locked st) = None_reason \<and>
      stop_sequence (reset_metrics_locked st) = []"
    by (simp add: reset_metrics_locked_def)
  have b: "(fst (stateRestore rt st mem jState) \<longleftrightarrow>
      ctx st \<noteq> None \<and>
      (\<exists>bytes. jState = Some bytes \<and> bytes \<noteq> [] \<and>
         0 < fst (llama_state_set_data rt (llama_memory_clear rt mem False) bytes)))"
    by (auto simp: stateRestore_def Let_def split: option.splits prod.splits)
  have c: "(fst (stateRestoreFrom rt st mem jBuffer len) \<longleftrightarrow>
      ctx st \<noteq> None \<and> 0 < sint len \<and>
      (\<exists>bytes. jBuffer = Some (Some bytes) \<and>
         0 < fst (llama_state_set_data rt (llama_memory_clear rt mem False)
                    (take (nat (sint len)) bytes))))"
    by (auto simp: stateRestoreFrom_def Let_def split: option.splits prod.splits)
  have d: "fst (snd (stateRestore rt st mem jState)) =
     (if fst (stateRestore rt st mem jState) then reset_metrics_locked st else st)"
    by (auto simp: stateRestore_def Let_def split: option.splits prod.splits)
  have e: "fst (snd (stateRestoreFrom rt st mem jBuffer len)) =
     (if fst (stateRestoreFrom rt st mem jBuffer len) then reset_metrics_locked st else st)"
    by (auto simp: stateRestoreFrom_def Let_def split: option.splits prod.splits)
  have f: "snd (snd (stateRestore rt st mem jState)) =
     (case jState of
        None \<Rightarrow> mem
      | Some bytes \<Rightarrow>
          if ctx st = None \<or> bytes = [] then mem
          else snd (llama_state_set_data rt (llama_memory_clear rt mem False) bytes))"
    by (auto simp: stateRestore_def Let_def split: option.splits prod.splits)
  have g: "snd (snd (stateRestoreFrom rt st mem jBuffer len)) =
     (case jBuffer of
        Some (Some bytes) \<Rightarrow>
          if ctx st = None \<or> sint len \<le> 0 then mem
          else snd (llama_state_set_data rt (llama_memory_clear rt mem False)
                      (take (nat (sint len)) bytes))
      | _ \<Rightarrow> mem)"
    by (auto simp: stateRestoreFrom_def Let_def split: option.splits prod.splits)
  from a b c d e f g show ?thesis by (intro conjI) simp_all
qed

text \<open>
  Witness for C3: accepted restores, an empty buffer, an unloaded session, a buffer that is not
  direct, and rejected data.
\<close>

theorem stateRestore_result_witness:
  "stateRestore accepting_runtime loaded_session [7, 7] (Some [1, 2, 3])
     = (True, reset_metrics_locked loaded_session, [1, 2, 3]) \<and>
   stateRestoreFrom accepting_runtime loaded_session [7, 7] (Some (Some [1, 2, 3])) 2
     = (True, reset_metrics_locked loaded_session, [1, 2]) \<and>
   stateRestore accepting_runtime loaded_session [7, 7] (Some []) = (False, loaded_session, [7, 7]) \<and>
   stateRestore accepting_runtime (unload_locked loaded_session) [7, 7] (Some [1])
     = (False, unload_locked loaded_session, [7, 7]) \<and>
   stateRestoreFrom accepting_runtime loaded_session [7, 7] (Some None) 2
     = (False, loaded_session, [7, 7]) \<and>
   stateRestore rejecting_runtime loaded_session [7, 7] (Some [1, 2, 3])
     = (False, loaded_session, []) \<and>
   generation_tokens (metrics (reset_metrics_locked loaded_session)) = 0"
  using stateRestore_result [of accepting_runtime loaded_session "[7, 7]" "Some [1, 2, 3]"
      "Some (Some [1, 2, 3])" 2]
    stateRestore_result [of accepting_runtime loaded_session "[7, 7]" "Some []" "Some None" 2]
    stateRestore_result [of accepting_runtime "unload_locked loaded_session" "[7, 7]" "Some [1]"
      "Some None" 2]
    stateRestore_result [of rejecting_runtime loaded_session "[7, 7]" "Some [1, 2, 3]" "None" 2]
  by (simp add: accepting_runtime_def rejecting_runtime_def stateRestore_def stateRestoreFrom_def
      loaded_session_def unload_locked_def reset_metrics_locked_def EngineMetrics_init_def)

text \<open>
  Counterexample to C3 as stated: the runtime rejects the data (it reads 0 bytes and leaves
  the memory as it finds it). Both operations fail, and the working memory, \<open>[7, 7]\<close> before
  the call, is empty after it: it is cleared before the runtime is asked to load.
\<close>

theorem stateRestore_counterexample:
  "fst (stateRestore rejecting_runtime loaded_session [7, 7] (Some [1, 2, 3])) = False \<and>
   snd (snd (stateRestore rejecting_runtime loaded_session [7, 7] (Some [1, 2, 3]))) = [] \<and>
   snd (snd (stateRestore rejecting_runtime loaded_session [7, 7] (Some [1, 2, 3]))) \<noteq> [7, 7] \<and>
   fst (stateRestoreFrom rejecting_runtime loaded_session [7, 7] (Some (Some [1, 2, 3])) 3) = False \<and>
   snd (snd (stateRestoreFrom rejecting_runtime loaded_session [7, 7] (Some (Some [1, 2, 3])) 3))
     \<noteq> [7, 7]"
  by (simp add: rejecting_runtime_def stateRestore_def stateRestoreFrom_def loaded_session_def)

section \<open>Properties of the machine arithmetic\<close>

lemma int32_add_in_range:
  assumes "- (2 ^ 31) \<le> a + b" and "a + b < 2 ^ 31"
  shows "int32_add a b = a + b"
proof -
  have "signed_take_bit 31 (a + b) = a + b"
    using assms by (intro signed_take_bit_int_eq_self) simp_all
  moreover have "(word_of_int a + word_of_int b :: 32 word) = word_of_int (a + b)" by simp
  ultimately show ?thesis unfolding int32_add_def by (simp only: sint_sbintrunc') simp
qed

lemma round_half_even_of_int: "round_half_even (of_int k) = k"
  by (simp add: round_half_even_def)

lemma round_half_even_error: "\<bar>of_int (round_half_even x) - x\<bar> \<le> 1 / 2"
proof -
  have "of_int \<lfloor>x\<rfloor> \<le> x" "x < of_int \<lfloor>x\<rfloor> + 1" by linarith+
  then show ?thesis by (auto simp: round_half_even_def Let_def)
qed

lemma round_double_dyadic:
  assumes "\<bar>k\<bar> < 2 ^ 53"
  shows "round_double (of_int k * 2 powr of_int j) = of_int k * 2 powr of_int j"
proof (cases "k = 0")
  case True
  then show ?thesis by (simp add: round_double_def)
next
  case False
  define b where "b = \<lfloor>log 2 \<bar>real_of_int k\<bar>\<rfloor>"
  have kpos: "0 < \<bar>real_of_int k\<bar>" using False by simp
  from b_def have bb: "2 powr of_int b \<le> \<bar>real_of_int k\<bar>" "\<bar>real_of_int k\<bar> < 2 powr of_int (b + 1)"
    using floor_log_eq_powr_iff [OF kpos, of 2 b] by simp_all
  have "1 \<le> \<bar>real_of_int k\<bar>" using False by (simp add: abs_if)
  then have "0 \<le> log 2 \<bar>real_of_int k\<bar>" by simp
  then have b0: "0 \<le> b" by (simp add: b_def)
  have "\<bar>real_of_int k\<bar> < 2 ^ 53" using assms by (metis of_int_abs of_int_less_numeral_power_cancel_iff)
  with bb(1) have lt: "2 powr of_int b < (2::real) ^ 53" by simp
  have b52: "b \<le> 52"
  proof (rule ccontr)
    assume "\<not> b \<le> 52"
    then have "real_of_int 53 \<le> of_int b" by simp
    then have "(2::real) powr real_of_int 53 \<le> 2 powr of_int b" by (intro powr_mono) simp_all
    with lt show False by simp
  qed
  let ?x = "of_int k * 2 powr of_int j :: real"
  have xabs: "\<bar>?x\<bar> = \<bar>real_of_int k\<bar> * 2 powr of_int j" by (simp add: abs_mult)
  have xpos: "0 < \<bar>?x\<bar>" using False by simp
  have "2 powr of_int (b + j) \<le> \<bar>?x\<bar> \<and> \<bar>?x\<bar> < 2 powr (of_int (b + j) + 1)"
    using bb by (simp add: xabs powr_add)
  then have fl: "\<lfloor>log 2 \<bar>?x\<bar>\<rfloor> = b + j"
    using floor_log_eq_powr_iff [OF xpos, of 2 "b + j"] by simp
  have q: "?x / 2 powr of_int (b + j - 52) = of_int (k * 2 ^ nat (52 - b))"
  proof -
    have "?x / 2 powr of_int (b + j - 52) =
        of_int k * (2 powr of_int j / 2 powr of_int (b + j - 52))"
      by (simp only: times_divide_eq_right)
    also have "2 powr real_of_int j / 2 powr real_of_int (b + j - 52) =
        2 powr (real_of_int j - real_of_int (b + j - 52))"
      by (simp only: powr_diff)
    also have "real_of_int j - real_of_int (b + j - 52) = real_of_int (52 - b)" by simp
    also have "(2::real) powr real_of_int (52 - b) = 2 ^ nat (52 - b)"
      using b52 powr_real_of_int [of 2 "52 - b"] by (simp only: if_True) simp
    finally show ?thesis by simp
  qed
  have "round_double ?x =
      of_int (round_half_even (?x / 2 powr of_int (b + j - 52))) * 2 powr of_int (b + j - 52)"
    using False by (simp add: round_double_def Let_def fl)
  also have "\<dots> = (?x / 2 powr of_int (b + j - 52)) * 2 powr of_int (b + j - 52)"
    unfolding q round_half_even_of_int ..
  also have "\<dots> = ?x" by simp
  finally show ?thesis .
qed

lemma round_double_of_int: "\<bar>k\<bar> < 2 ^ 53 \<Longrightarrow> round_double (of_int k) = of_int k"
  using round_double_dyadic [of k 0] by simp

lemma round_double_div_pow2:
  "\<bar>k\<bar> < 2 ^ 53 \<Longrightarrow> round_double (of_int k / 2 ^ n) = of_int k / 2 ^ n"
  using round_double_dyadic [of k "- int n"] by (simp add: powr_minus powr_realpow divide_inverse)

lemma round_double_error: "\<bar>round_double x - x\<bar> \<le> \<bar>x\<bar> / 2 ^ 53"
proof (cases "x = 0")
  case True
  then show ?thesis by (simp add: round_double_def)
next
  case False
  define e where "e = \<lfloor>log 2 \<bar>x\<bar>\<rfloor> - 52"
  define u :: real where "u = 2 powr of_int e"
  have upos: "0 < u" by (simp add: u_def)
  have xpos: "0 < \<bar>x\<bar>" using False by simp
  have "2 powr of_int (e + 52) \<le> \<bar>x\<bar>"
    using floor_log_eq_powr_iff [OF xpos, of 2 "e + 52"] by (simp add: e_def)
  then have lo: "u * 2 ^ 52 \<le> \<bar>x\<bar>" by (simp add: u_def powr_add)
  have r: "round_double x = of_int (round_half_even (x / u)) * u"
    using False by (simp add: round_double_def Let_def e_def u_def)
  have "\<bar>round_double x - x\<bar> = \<bar>of_int (round_half_even (x / u)) - x / u\<bar> * u"
  proof -
    have "round_double x - x = (of_int (round_half_even (x / u)) - x / u) * u"
      using upos by (simp add: r field_simps)
    then show ?thesis using upos by (simp add: abs_mult)
  qed
  also have "\<dots> \<le> (1 / 2) * u"
    using round_half_even_error [of "x / u"] upos by (intro mult_right_mono) simp_all
  also have "\<dots> = (u * 2 ^ 52) / 2 ^ 53" by simp
  also have "\<dots> \<le> \<bar>x\<bar> / 2 ^ 53" using lo by (intro divide_right_mono) simp_all
  finally show ?thesis .
qed

lemma round_double_0 [simp]: "round_double 0 = 0"
  by (simp add: round_double_def)

lemma round_double_numeral [simp]:
  "numeral n < (2::int) ^ 53 \<Longrightarrow> round_double (numeral n) = numeral n"
  using round_double_of_int [of "numeral n"] by simp

lemma dmul_of_int:
  "\<bar>a * b\<bar> < 2 ^ 53 \<Longrightarrow> dmul (of_int a) (of_int b) = of_int (a * b)"
  using round_double_of_int [of "a * b"] by (simp add: dmul_def)

section \<open>Properties of the generation pipeline\<close>

lemma emit_chunk_fst:
  "fst (emit_chunk strm jni txt d calls) = fst (emit_chunk strm jni txt d [])"
  by (simp add: emit_chunk_def split: option.splits)

lemma emit_chunk_calls:
  "snd (emit_chunk strm jni txt d calls) = calls \<or>
   snd (emit_chunk strm jni txt d calls) = calls @ [(c_str txt, d)] \<and> (d \<or> txt \<noteq> [])"
  by (simp add: emit_chunk_def split: option.splits)

lemma emit_chunk_done:
  "callback sc \<Longrightarrow> on_token sc \<Longrightarrow>
     snd (emit_chunk (Some sc) jni [] True calls) =
       calls @ (if alloc_ok jni then [([], True)] else [])"
  by (simp add: emit_chunk_def c_str_def)

lemma decode_loop_invariant:
  assumes "I ls"
    and "\<And>k l b l'. I l \<Longrightarrow> loop_iteration env strm k l = (b, l') \<Longrightarrow> I l'"
  shows "I (decode_loop env req strm i ls)"
  using assms(1)
proof (induction "nat (max_tokens req) - i" arbitrary: i ls)
  case 0
  then have "\<not> int i < max_tokens req" by simp
  with "0.prems" show ?case by (simp add: decode_loop.simps)
next
  case (Suc n)
  then have lt: "int i < max_tokens req" by simp
  obtain b l' where it: "loop_iteration env strm i ls = (b, l')"
    by (cases "loop_iteration env strm i ls") auto
  from assms(2) [OF Suc.prems it] have I': "I l'" .
  show ?case
  proof (cases b)
    case True
    from Suc.hyps(2) have "n = nat (max_tokens req) - Suc i" by simp
    from Suc.hyps(1) [OF this I'] True lt it show ?thesis
      by (subst decode_loop.simps) simp
  next
    case False
    with lt it I' show ?thesis by (subst decode_loop.simps) simp
  qed
qed

lemma loop_iteration_cases [consumes 1, case_names abort eog send_fail decode_fail hit continue]:
  assumes it: "loop_iteration env strm k l = (b, l')"
  obtains
    (abort) "abort_flag (step env k)" "\<not> b"
      "l' = l\<lparr>ls_aborted := True,
               ls_summary := (ls_summary l)\<lparr>reason := Error,
                 sum_metrics := (sum_metrics (ls_summary l))\<lparr>truncated := True\<rparr>\<rparr>\<rparr>"
  | (eog) "\<not> abort_flag (step env k)" "is_eog (step env k)" "\<not> b"
      "l' = l\<lparr>ls_summary := (ls_summary l)\<lparr>reason := Eos\<rparr>\<rparr>"
  | (send_fail) emit h m sb where
      "\<not> abort_flag (step env k)" "\<not> is_eog (step env k)"
      "push (ls_stop_buffer l) (token_piece (step env k)) = (emit, h, m, sb)"
      "emit \<noteq> []" "\<not> fst (emit_chunk strm (chunk_jni (step env k)) emit False (ls_calls l))"
      "\<not> b"
      "l' = l\<lparr>ls_stop_buffer := sb,
               ls_calls := snd (emit_chunk strm (chunk_jni (step env k)) emit False (ls_calls l)),
               ls_summary := (ls_summary l)\<lparr>reason := Error\<rparr>\<rparr>"
  | (decode_fail) emit h m sb calls m2 where
      "\<not> abort_flag (step env k)" "\<not> is_eog (step env k)"
      "push (ls_stop_buffer l) (token_piece (step env k)) = (emit, h, m, sb)"
      "calls = ls_calls l \<or>
       emit \<noteq> [] \<and> calls = snd (emit_chunk strm (chunk_jni (step env k)) emit False (ls_calls l))"
      "m2 = (sum_metrics (ls_summary l))\<lparr>generation_tokens :=
               generation_tokens (sum_metrics (ls_summary l)) + 1\<rparr> \<or>
       m2 = (sum_metrics (ls_summary l))\<lparr>ttfs_ms := dsub (now_ms (step env k)) (t_start_ms env),
               generation_tokens := generation_tokens (sum_metrics (ls_summary l)) + 1\<rparr>"
      "decode_ret (step env k) \<noteq> 0" "\<not> b"
      "ls_stop_buffer l' = sb" "ls_calls l' = calls" "ls_aborted l' = ls_aborted l"
      "ls_summary l' = (ls_summary l)\<lparr>reason := Error, sum_metrics := m2\<lparr>truncated := True\<rparr>\<rparr>"
  | (hit) emit m sb calls m2 where
      "\<not> abort_flag (step env k)" "\<not> is_eog (step env k)"
      "push (ls_stop_buffer l) (token_piece (step env k)) = (emit, True, m, sb)"
      "calls = ls_calls l \<or>
       emit \<noteq> [] \<and> calls = snd (emit_chunk strm (chunk_jni (step env k)) emit False (ls_calls l))"
      "m2 = (sum_metrics (ls_summary l))\<lparr>generation_tokens :=
               generation_tokens (sum_metrics (ls_summary l)) + 1\<rparr> \<or>
       m2 = (sum_metrics (ls_summary l))\<lparr>ttfs_ms := dsub (now_ms (step env k)) (t_start_ms env),
               generation_tokens := generation_tokens (sum_metrics (ls_summary l)) + 1\<rparr>"
      "decode_ret (step env k) = 0" "\<not> b"
      "ls_stop_buffer l' = sb" "ls_calls l' = calls" "ls_aborted l' = ls_aborted l"
      "ls_summary l' = (ls_summary l)\<lparr>reason := StopSequence, sum_stop_sequence := m,
                          sum_metrics := m2\<rparr>"
  | (continue) emit m sb calls m2 where
      "\<not> abort_flag (step env k)" "\<not> is_eog (step env k)"
      "push (ls_stop_buffer l) (token_piece (step env k)) = (emit, False, m, sb)"
      "calls = ls_calls l \<or>
       emit \<noteq> [] \<and> calls = snd (emit_chunk strm (chunk_jni (step env k)) emit False (ls_calls l))"
      "m2 = (sum_metrics (ls_summary l))\<lparr>generation_tokens :=
               generation_tokens (sum_metrics (ls_summary l)) + 1\<rparr> \<or>
       m2 = (sum_metrics (ls_summary l))\<lparr>ttfs_ms := dsub (now_ms (step env k)) (t_start_ms env),
               generation_tokens := generation_tokens (sum_metrics (ls_summary l)) + 1\<rparr>"
      "decode_ret (step env k) = 0" "b"
      "ls_stop_buffer l' = sb" "ls_calls l' = calls" "ls_aborted l' = ls_aborted l"
      "ls_summary l' = (ls_summary l)\<lparr>sum_metrics := m2\<rparr>"
proof -
  obtain emit h m sb where p: "push (ls_stop_buffer l) (token_piece (step env k)) = (emit, h, m, sb)"
    by (cases "push (ls_stop_buffer l) (token_piece (step env k))") auto
  obtain sent calls where
    c: "(if emit \<noteq> [] then emit_chunk strm (chunk_jni (step env k)) emit False (ls_calls l)
         else (True, ls_calls l)) = (sent, calls)"
    by (cases "(if emit \<noteq> [] then emit_chunk strm (chunk_jni (step env k)) emit False (ls_calls l)
         else (True, ls_calls l))") auto
  note it2 = it [unfolded loop_iteration_def Let_def p prod.case c]
  show thesis
  proof (cases "abort_flag (step env k)")
    case True
    with it show ?thesis by (intro abort) (simp_all add: loop_iteration_def Let_def)
  next
    case na: False
    show ?thesis
    proof (cases "is_eog (step env k)")
      case True
      with it na show ?thesis by (intro eog) (simp_all add: loop_iteration_def Let_def)
    next
      case ne: False
      show ?thesis
      proof (cases sent)
        case False
        with c have e: "emit \<noteq> []" by (auto split: if_splits)
        with c False have
          "\<not> fst (emit_chunk strm (chunk_jni (step env k)) emit False (ls_calls l))"
          "calls = snd (emit_chunk strm (chunk_jni (step env k)) emit False (ls_calls l))"
          by auto
        with it2 na ne p e False show ?thesis
          by (intro send_fail [of emit h m sb]) simp_all
      next
        case True
        have cc: "calls = ls_calls l \<or>
          emit \<noteq> [] \<and> calls = snd (emit_chunk strm (chunk_jni (step env k)) emit False (ls_calls l))"
          using c by (auto split: if_splits)
        define m2 where "m2 = (if generation_tokens (sum_metrics (ls_summary l)) = 0
            then (sum_metrics (ls_summary l))\<lparr>ttfs_ms := dsub (now_ms (step env k)) (t_start_ms env)\<rparr>
            else sum_metrics (ls_summary l))\<lparr>generation_tokens :=
              generation_tokens (if generation_tokens (sum_metrics (ls_summary l)) = 0
            then (sum_metrics (ls_summary l))\<lparr>ttfs_ms := dsub (now_ms (step env k)) (t_start_ms env)\<rparr>
            else sum_metrics (ls_summary l)) + 1\<rparr>"
        have mm: "m2 = (sum_metrics (ls_summary l))\<lparr>generation_tokens :=
               generation_tokens (sum_metrics (ls_summary l)) + 1\<rparr> \<or>
          m2 = (sum_metrics (ls_summary l))\<lparr>ttfs_ms := dsub (now_ms (step env k)) (t_start_ms env),
               generation_tokens := generation_tokens (sum_metrics (ls_summary l)) + 1\<rparr>"
          by (simp add: m2_def)
        show ?thesis
        proof (cases "decode_ret (step env k) \<noteq> 0")
          case df: True
          with it2 na ne \<open>sent\<close> show ?thesis
            by (intro decode_fail [OF na ne p cc mm]) (auto simp: m2_def)
        next
          case False
          then have d0: "decode_ret (step env k) = 0" by simp
          show ?thesis
          proof (cases h)
            case True
            with p have p': "push (ls_stop_buffer l) (token_piece (step env k)) = (emit, True, m, sb)"
              by simp
            from it2 na ne \<open>sent\<close> d0 True show ?thesis
              by (intro hit [OF na ne p' cc mm d0]) (auto simp: m2_def)
          next
            case False
            with p have p': "push (ls_stop_buffer l) (token_piece (step env k)) = (emit, False, m, sb)"
              by simp
            from it2 na ne \<open>sent\<close> d0 False show ?thesis
              by (intro continue [OF na ne p' cc mm d0]) (auto simp: m2_def)
          qed
        qed
      qed
    qed
  qed
qed

lemma generate_body_cases [case_names early run]:
  obtains
    (early) s where "generate_body env st req strm out = early_error s strm out"
      "s = st \<or> s = st\<lparr>should_abort := False\<rparr>"
      "ctx st = None \<or> model st = None \<or> \<not> vocab env \<or>
       prepare_prompt_tokens env (full_prompt req) = None \<or> prefill_ret env \<noteq> 0 \<or> \<not> sampler env"
  | (run) n ls0 where
      "generate_body env st req strm out =
         after_loop env (st\<lparr>should_abort := False\<rparr>) req strm (decode_loop env req strm 0 ls0)"
      "ctx st \<noteq> None" "model st \<noteq> None" "vocab env"
      "prepare_prompt_tokens env (full_prompt req) = Some n" "prefill_ret env = 0" "sampler env"
      "ls_calls ls0 = []" "ls_stop_buffer ls0 = StopBuffer_init (stops req)"
      "ls_out_text ls0 = out" "ls_aborted ls0 = False"
      "reason (ls_summary ls0) = None_reason" "sum_stop_sequence (ls_summary ls0) = []"
      "prompt_tokens (sum_metrics (ls_summary ls0)) = int n"
      "generation_tokens (sum_metrics (ls_summary ls0)) = 0"
      "context_used_pct (sum_metrics (ls_summary ls0)) = 0"
      "truncated (sum_metrics (ls_summary ls0)) = False"
proof (cases "ctx st = None \<or> model st = None \<or> \<not> vocab env \<or>
       prepare_prompt_tokens env (full_prompt req) = None \<or> prefill_ret env \<noteq> 0 \<or> \<not> sampler env")
  case True
  then have "generate_body env st req strm out = early_error st strm out \<or>
      generate_body env st req strm out = early_error (st\<lparr>should_abort := False\<rparr>) strm out"
    unfolding generate_body_def Let_def by (auto split: option.splits)
  with True early show ?thesis by blast
next
  case False
  then obtain n where n: "prepare_prompt_tokens env (full_prompt req) = Some n" by auto
  define m0 where "m0 = EngineMetrics_init\<lparr>prompt_tokens := int n,
      prefill_ms := dsub (t_prefill_end_ms env) (t_start_ms env)\<rparr>"
  define m where "m = (if 0 < prefill_ms m0
      then m0\<lparr>prompt_tps := ddiv (dmul (real_of_int (prompt_tokens m0)) 1000) (prefill_ms m0)\<rparr>
      else m0)"
  define ls0 where "ls0 = \<lparr>ls_summary = GenerationSummary_init\<lparr>sum_metrics := m\<rparr>,
      ls_stop_buffer = StopBuffer_init (stops req), ls_calls = [], ls_out_text = out,
      ls_aborted = False\<rparr>"
  have eq: "generate_body env st req strm out =
      after_loop env (st\<lparr>should_abort := False\<rparr>) req strm (decode_loop env req strm 0 ls0)"
    using False n unfolding generate_body_def Let_def ls0_def m_def m0_def by auto
  have ms: "prompt_tokens m = int n" "generation_tokens m = 0" "context_used_pct m = 0"
    "truncated m = False"
    by (simp_all add: m_def m0_def EngineMetrics_init_def)
  from False n show ?thesis
    by (intro run [of ls0 n, OF eq]) (simp_all add: ls0_def ms GenerationSummary_init_def)
qed

lemma loop_iteration_metrics:
  assumes "loop_iteration env strm k l = (b, l')"
  shows "prompt_tokens (sum_metrics (ls_summary l')) = prompt_tokens (sum_metrics (ls_summary l)) \<and>
     context_used_pct (sum_metrics (ls_summary l')) = context_used_pct (sum_metrics (ls_summary l))"
  using assms by (cases rule: loop_iteration_cases) auto

lemma decode_loop_metrics:
  "prompt_tokens (sum_metrics (ls_summary (decode_loop env req strm i ls)))
     = prompt_tokens (sum_metrics (ls_summary ls)) \<and>
   context_used_pct (sum_metrics (ls_summary (decode_loop env req strm i ls)))
     = context_used_pct (sum_metrics (ls_summary ls))"
  by (rule decode_loop_invariant [where I = "\<lambda>l.
        prompt_tokens (sum_metrics (ls_summary l)) = prompt_tokens (sum_metrics (ls_summary ls)) \<and>
        context_used_pct (sum_metrics (ls_summary l)) = context_used_pct (sum_metrics (ls_summary ls))"])
     (auto dest: loop_iteration_metrics)

lemma after_loop_pct:
  "context_used_pct (sum_metrics (br_summary (after_loop env st req strm ls))) =
     (if 0 < n_ctx st
      then ddiv (dmul (real_of_int (int32_add
               (prompt_tokens (sum_metrics (br_summary (after_loop env st req strm ls))))
               (generation_tokens (sum_metrics (br_summary (after_loop env st req strm ls))))))
             100)
             (real_of_int (n_ctx st))
      else context_used_pct (sum_metrics (ls_summary ls)))"
  by (simp add: after_loop_def Let_def split: prod.splits)

lemma int32_add_0: "int32_add 0 0 = 0"
  by (simp add: int32_add_def)

lemma generate_body_pct:
  "context_used_pct (sum_metrics (br_summary (generate_body env st req strm out))) =
     (if 0 < n_ctx st
      then ddiv (dmul (real_of_int (int32_add
               (prompt_tokens (sum_metrics (br_summary (generate_body env st req strm out))))
               (generation_tokens (sum_metrics (br_summary (generate_body env st req strm out))))))
             100)
             (real_of_int (n_ctx st))
      else 0)"
proof (cases rule: generate_body_cases [of env st req strm out])
  case (early s)
  then show ?thesis
    by (simp add: early_error_def GenerationSummary_init_def EngineMetrics_init_def int32_add_0
        dmul_def ddiv_def)
next
  case (run n ls0)
  then show ?thesis by (simp add: after_loop_pct decode_loop_metrics)
qed

lemma generate_internal_summary:
  "gr_summary (generate_internal env st req strm out) = br_summary (generate_body env st req strm out)"
  by (simp add: generate_internal_def Let_def)

lemma generate_internal_commit:
  "metrics (gr_state (generate_internal env st req strm out))
     = sum_metrics (gr_summary (generate_internal env st req strm out)) \<and>
   stop_reason (gr_state (generate_internal env st req strm out))
     = reason (gr_summary (generate_internal env st req strm out)) \<and>
   stop_sequence (gr_state (generate_internal env st req strm out))
     = sum_stop_sequence (gr_summary (generate_internal env st req strm out))"
  by (simp add: generate_internal_def Let_def SummaryCommit_dtor_def)

lemma generate_body_config:
  "n_ctx (br_state (generate_body env st req strm out)) = n_ctx st \<and>
   n_threads (br_state (generate_body env st req strm out)) = n_threads st \<and>
   model (br_state (generate_body env st req strm out)) = model st \<and>
   ctx (br_state (generate_body env st req strm out)) = ctx st"
proof (cases rule: generate_body_cases [of env st req strm out])
  case (early s)
  then show ?thesis by (auto simp: early_error_def)
next
  case (run n ls0)
  then show ?thesis by (simp add: after_loop_def Let_def split: prod.splits)
qed

lemma push_chars:
  "push sb piece = (emit, h, m, sb') \<Longrightarrow>
     set emit \<union> set (sb_pending sb') \<subseteq> set (sb_pending sb) \<union> set piece"
proof -
  assume p: "push sb piece = (emit, h, m, sb')"
  from push_conserves [OF p]
  have "set (emit @ (if h then m else []) @ sb_pending sb') = set (sb_pending sb @ piece)"
    by simp
  then show ?thesis by auto
qed

lemma text_calls_Nil: "text_calls A []"
  by (simp add: text_calls_def)

lemma text_calls_snoc:
  assumes "text_calls A calls" "e \<noteq> []" "set e \<subseteq> A"
  shows "text_calls A (calls @ [(c_str e, False)])"
proof -
  from assms(1) obtain chunks where
    c: "calls = map (\<lambda>e. (c_str e, False)) chunks" "\<forall>e\<in>set chunks. e \<noteq> [] \<and> set e \<subseteq> A"
    by (auto simp: text_calls_def)
  then have "calls @ [(c_str e, False)] = map (\<lambda>e. (c_str e, False)) (chunks @ [e])" by simp
  moreover have "\<forall>x\<in>set (chunks @ [e]). x \<noteq> [] \<and> set x \<subseteq> A" using c(2) assms(2,3) by auto
  ultimately show ?thesis unfolding text_calls_def by blast
qed

lemma text_calls_emit:
  assumes "text_calls A calls" "e \<noteq> []" "set e \<subseteq> A"
  shows "text_calls A (snd (emit_chunk strm jni e False calls))"
  using emit_chunk_calls [of strm jni e False calls] assms text_calls_snoc [OF assms]
  by auto

lemma loop_iteration_text_calls:
  assumes it: "loop_iteration env strm k l = (b, l')"
    and pieces_in: "\<forall>i. set (token_piece (step env i)) \<subseteq> A"
    and inv: "text_calls A (ls_calls l) \<and> set (sb_pending (ls_stop_buffer l)) \<subseteq> A"
  shows "text_calls A (ls_calls l') \<and> set (sb_pending (ls_stop_buffer l')) \<subseteq> A"
proof -
  have sub: "set emit \<subseteq> A \<and> set (sb_pending sb) \<subseteq> A"
    if "push (ls_stop_buffer l) (token_piece (step env k)) = (emit, h, m, sb)" for emit h m sb
    using push_chars [OF that] pieces_in inv by blast
  from it show ?thesis
  proof (cases rule: loop_iteration_cases)
    case abort
    with inv show ?thesis by simp
  next
    case eog
    with inv show ?thesis by simp
  next
    case (send_fail emit h m sb)
    with sub [OF send_fail(3)] inv text_calls_emit [of A "ls_calls l" emit] show ?thesis by simp
  next
    case (decode_fail emit h m sb calls m2)
    with sub [OF decode_fail(3)] inv text_calls_emit [of A "ls_calls l" emit] show ?thesis by auto
  next
    case (hit emit m sb calls m2)
    with sub [OF hit(3)] inv text_calls_emit [of A "ls_calls l" emit] show ?thesis by auto
  next
    case (continue emit m sb calls m2)
    with sub [OF continue(3)] inv text_calls_emit [of A "ls_calls l" emit] show ?thesis by auto
  qed
qed

lemma decode_loop_text_calls:
  assumes "\<forall>i. set (token_piece (step env i)) \<subseteq> A"
    and "text_calls A (ls_calls ls) \<and> set (sb_pending (ls_stop_buffer ls)) \<subseteq> A"
  shows "text_calls A (ls_calls (decode_loop env req strm i ls)) \<and>
         set (sb_pending (ls_stop_buffer (decode_loop env req strm i ls))) \<subseteq> A"
  by (rule decode_loop_invariant [where I = "\<lambda>l. text_calls A (ls_calls l) \<and>
        set (sb_pending (ls_stop_buffer l)) \<subseteq> A", OF assms(2)])
     (rule loop_iteration_text_calls [OF _ assms(1)])

lemma early_error_calls:
  "callback sc \<Longrightarrow> on_token sc \<Longrightarrow>
   StreamDoneGuard_dtor env (br_guard (early_error s (Some sc) out))
       (br_calls (early_error s (Some sc) out))
     = (if alloc_ok (done_jni env) then [([], True)] else [])"
  by (simp add: early_error_def StreamDoneGuard_dtor_def emit_chunk_done)

lemma after_loop_calls:
  assumes v: "callback sc" "on_token sc"
    and inv: "text_calls A (ls_calls ls) \<and> set (sb_pending (ls_stop_buffer ls)) \<subseteq> A"
  shows "\<exists>calls. text_calls A calls \<and>
     StreamDoneGuard_dtor env (br_guard (after_loop env s req (Some sc) ls))
         (br_calls (after_loop env s req (Some sc) ls))
       = calls @ (if alloc_ok (done_jni env) then [([], True)] else [])"
proof -
  define tail where "tail = sb_pending (ls_stop_buffer ls)"
  have t: "text_calls A (snd (emit_chunk (Some sc) (tail_jni env) tail False (ls_calls ls)))"
    if "tail \<noteq> []"
    using text_calls_emit [of A "ls_calls ls" tail] inv that by (simp add: tail_def)
  obtain sent calls where
    e: "emit_chunk (Some sc) (tail_jni env) tail False (ls_calls ls) = (sent, calls)"
    by (cases "emit_chunk (Some sc) (tail_jni env) tail False (ls_calls ls)") auto
  with t have tc: "tail \<noteq> [] \<Longrightarrow> text_calls A calls" by simp
  show ?thesis
    unfolding after_loop_def Let_def flush_def fst_conv tail_def [symmetric] e prod.case
    using inv tc v
    by (auto simp: StreamDoneGuard_dtor_def emit_chunk_done)
qed

lemma generate_internal_calls:
  assumes v: "callback sc" "on_token sc"
    and pieces_in: "\<forall>i. set (token_piece (step env i)) \<subseteq> A"
  shows "\<exists>calls. text_calls A calls \<and>
     gr_calls (generate_internal env st req (Some sc) out)
       = calls @ (if alloc_ok (done_jni env) then [([], True)] else [])"
proof -
  have g: "gr_calls (generate_internal env st req (Some sc) out) =
      StreamDoneGuard_dtor env (br_guard (generate_body env st req (Some sc) out))
        (br_calls (generate_body env st req (Some sc) out))"
    by (simp add: generate_internal_def Let_def)
  show ?thesis
  proof (cases rule: generate_body_cases [of env st req "Some sc" out])
    case (early s)
    have "text_calls A [] \<and>
      StreamDoneGuard_dtor env (br_guard (early_error s (Some sc) out))
         (br_calls (early_error s (Some sc) out))
       = [] @ (if alloc_ok (done_jni env) then [([], True)] else [])"
      using early_error_calls [OF v, of env s out] text_calls_Nil [of A] by simp
    with g early(1) show ?thesis by metis
  next
    case (run n ls0)
    have "text_calls A (ls_calls ls0) \<and> set (sb_pending (ls_stop_buffer ls0)) \<subseteq> A"
      using run by (simp add: text_calls_Nil)
    from decode_loop_text_calls [OF pieces_in this]
    have "text_calls A (ls_calls (decode_loop env req (Some sc) 0 ls0)) \<and>
      set (sb_pending (ls_stop_buffer (decode_loop env req (Some sc) 0 ls0))) \<subseteq> A" .
    from after_loop_calls [OF v this] g run(1) show ?thesis by simp
  qed
qed

lemma pieces_Suc: "pieces env (Suc i) = pieces env i @ [token_piece (step env i)]"
  by (simp add: pieces_def)

lemma matcher_at_Suc:
  "matcher_at env req (Suc i) = snd (snd (snd (push (matcher_at env req i) (token_piece (step env i)))))"
  by (simp add: matcher_at_def pieces_Suc push_seq_snoc)

lemma matcher_at_0: "matcher_at env req 0 = StopBuffer_init (stops req)"
  by (simp add: matcher_at_def pieces_def)

lemma loop_iteration_quiet:
  assumes q: "quiet_step env req strm k" and sb: "ls_stop_buffer l = matcher_at env req k"
  shows "\<exists>l'. loop_iteration env strm k l = (True, l') \<and>
    ls_stop_buffer l' = matcher_at env req (Suc k) \<and>
    generation_tokens (sum_metrics (ls_summary l')) = generation_tokens (sum_metrics (ls_summary l)) + 1 \<and>
    prompt_tokens (sum_metrics (ls_summary l')) = prompt_tokens (sum_metrics (ls_summary l)) \<and>
    truncated (sum_metrics (ls_summary l')) = truncated (sum_metrics (ls_summary l)) \<and>
    reason (ls_summary l') = reason (ls_summary l) \<and>
    sum_stop_sequence (ls_summary l') = sum_stop_sequence (ls_summary l) \<and>
    ls_aborted l' = ls_aborted l"
proof -
  obtain b l' where it: "loop_iteration env strm k l = (b, l')"
    by (cases "loop_iteration env strm k l") auto
  obtain emit h m sb' where p: "push (matcher_at env req k) (token_piece (step env k)) = (emit, h, m, sb')"
    by (cases "push (matcher_at env req k) (token_piece (step env k))") auto
  from q p have qs: "\<not> abort_flag (step env k)" "\<not> is_eog (step env k)" "decode_ret (step env k) = 0"
    "\<not> h" "emit = [] \<or> fst (emit_chunk strm (chunk_jni (step env k)) emit False [])"
    by (simp_all add: quiet_step_def Let_def)
  have nx: "matcher_at env req (Suc k) = sb'" by (simp add: matcher_at_Suc p)
  from it show ?thesis
  proof (cases rule: loop_iteration_cases)
    case abort
    with qs show ?thesis by simp
  next
    case eog
    with qs show ?thesis by simp
  next
    case (send_fail emit' h' m' sb'')
    with p sb qs emit_chunk_fst [of strm "chunk_jni (step env k)" emit False "ls_calls l"]
    show ?thesis by auto
  next
    case (decode_fail emit' h' m' sb'' calls m2)
    with qs show ?thesis by simp
  next
    case (hit emit' m' sb'' calls m2)
    with p sb qs show ?thesis by simp
  next
    case (continue emit' m' sb'' calls m2)
    with p sb nx it show ?thesis by auto
  qed
qed

lemma decode_loop_quiet:
  assumes "\<forall>k. i \<le> k \<and> int k < max_tokens req \<longrightarrow> quiet_step env req strm k"
    and "ls_stop_buffer ls = matcher_at env req i" and "int i \<le> max_tokens req"
  shows "ls_stop_buffer (decode_loop env req strm i ls) = matcher_at env req (nat (max_tokens req)) \<and>
    generation_tokens (sum_metrics (ls_summary (decode_loop env req strm i ls)))
      = generation_tokens (sum_metrics (ls_summary ls)) + (max_tokens req - int i) \<and>
    prompt_tokens (sum_metrics (ls_summary (decode_loop env req strm i ls)))
      = prompt_tokens (sum_metrics (ls_summary ls)) \<and>
    truncated (sum_metrics (ls_summary (decode_loop env req strm i ls)))
      = truncated (sum_metrics (ls_summary ls)) \<and>
    reason (ls_summary (decode_loop env req strm i ls)) = reason (ls_summary ls) \<and>
    sum_stop_sequence (ls_summary (decode_loop env req strm i ls)) = sum_stop_sequence (ls_summary ls) \<and>
    ls_aborted (decode_loop env req strm i ls) = ls_aborted ls"
  using assms
proof (induction "nat (max_tokens req) - i" arbitrary: i ls)
  case 0
  then have "\<not> int i < max_tokens req" "nat (max_tokens req) = i" by simp_all
  with "0.prems" show ?case by (simp add: decode_loop.simps)
next
  case (Suc n)
  then have lt: "int i < max_tokens req" by simp
  with Suc.prems(1) have "quiet_step env req strm i" by simp
  from loop_iteration_quiet [OF this Suc.prems(2)] obtain l' where
    l': "loop_iteration env strm i ls = (True, l')"
      "ls_stop_buffer l' = matcher_at env req (Suc i)"
      "generation_tokens (sum_metrics (ls_summary l')) = generation_tokens (sum_metrics (ls_summary ls)) + 1"
      "prompt_tokens (sum_metrics (ls_summary l')) = prompt_tokens (sum_metrics (ls_summary ls))"
      "truncated (sum_metrics (ls_summary l')) = truncated (sum_metrics (ls_summary ls))"
      "reason (ls_summary l') = reason (ls_summary ls)"
      "sum_stop_sequence (ls_summary l') = sum_stop_sequence (ls_summary ls)"
      "ls_aborted l' = ls_aborted ls"
    by blast
  have n: "n = nat (max_tokens req) - Suc i" using Suc.hyps(2) by simp
  have q': "\<forall>k. Suc i \<le> k \<and> int k < max_tokens req \<longrightarrow> quiet_step env req strm k"
    using Suc.prems(1) by simp
  have le: "int (Suc i) \<le> max_tokens req" using lt by simp
  have unf: "decode_loop env req strm i ls = decode_loop env req strm (Suc i) l'"
    using lt l'(1) by (subst decode_loop.simps) simp
  from Suc.hyps(1) [OF n q' l'(2) le] l' show ?case unfolding unf by simp
qed

lemma quiet_run_summary:
  assumes "ctx st \<noteq> None" "model st \<noteq> None" "vocab env"
    and "prepare_prompt_tokens env (full_prompt req) = Some n"
    and "prefill_ret env = 0" "sampler env" "0 \<le> max_tokens req"
    and "\<forall>k. int k < max_tokens req \<longrightarrow> quiet_step env req strm k"
  shows "reason (gr_summary (generate_internal env st req strm out))
      = (if tail_delivered env req strm then MaxTokens else Error) \<and>
    truncated (sum_metrics (gr_summary (generate_internal env st req strm out))) \<and>
    generation_tokens (sum_metrics (gr_summary (generate_internal env st req strm out))) = max_tokens req \<and>
    prompt_tokens (sum_metrics (gr_summary (generate_internal env st req strm out))) = int n \<and>
    gr_ret (generate_internal env st req strm out) = tail_delivered env req strm"
proof (cases rule: generate_body_cases [of env st req strm out])
  case (early s)
  with assms show ?thesis by auto
next
  case (run n' ls0)
  let ?l = "decode_loop env req strm 0 ls0"
  have "ls_stop_buffer ls0 = matcher_at env req 0" using run by (simp add: matcher_at_0)
  from decode_loop_quiet [of 0 req env strm ls0, OF _ this] assms(7,8) run
  have l: "ls_stop_buffer ?l = matcher_at env req (nat (max_tokens req))"
    "generation_tokens (sum_metrics (ls_summary ?l)) = max_tokens req"
    "prompt_tokens (sum_metrics (ls_summary ?l)) = int n'"
    "truncated (sum_metrics (ls_summary ?l)) = False"
    "reason (ls_summary ?l) = None_reason"
    by simp_all
  have nn: "n' = n" using run(5) assms(4) by simp
  define tail where "tail = sb_pending (ls_stop_buffer ?l)"
  obtain sent calls where e: "emit_chunk strm (tail_jni env) tail False (ls_calls ?l) = (sent, calls)"
    by (cases "emit_chunk strm (tail_jni env) tail False (ls_calls ?l)") auto
  have td: "tail_delivered env req strm \<longleftrightarrow> tail = [] \<or> sent"
    using l(1) e emit_chunk_fst [of strm "tail_jni env" tail False "ls_calls ?l"]
    by (auto simp: tail_delivered_def Let_def tail_def)
  have "reason (br_summary (after_loop env (st\<lparr>should_abort := False\<rparr>) req strm ?l))
      = (if tail_delivered env req strm then MaxTokens else Error) \<and>
    truncated (sum_metrics (br_summary (after_loop env (st\<lparr>should_abort := False\<rparr>) req strm ?l))) \<and>
    generation_tokens (sum_metrics (br_summary (after_loop env (st\<lparr>should_abort := False\<rparr>) req strm ?l)))
       = max_tokens req \<and>
    prompt_tokens (sum_metrics (br_summary (after_loop env (st\<lparr>should_abort := False\<rparr>) req strm ?l)))
       = int n \<and>
    br_ret (after_loop env (st\<lparr>should_abort := False\<rparr>) req strm ?l) = tail_delivered env req strm"
    unfolding after_loop_def Let_def flush_def fst_conv tail_def [symmetric] e prod.case td
    using l nn by auto
  with run(1) show ?thesis by (simp add: generate_internal_def Let_def)
qed

lemma loop_iteration_generated:
  assumes "loop_iteration env strm k l = (b, l')"
    and "0 \<le> generation_tokens (sum_metrics (ls_summary l))"
  shows "0 \<le> generation_tokens (sum_metrics (ls_summary l'))"
  using assms by (cases rule: loop_iteration_cases) auto

lemma generated_nonneg:
  "0 \<le> generation_tokens (sum_metrics (gr_summary (generate_internal env st req strm out))) \<and>
   0 \<le> prompt_tokens (sum_metrics (gr_summary (generate_internal env st req strm out)))"
proof (cases rule: generate_body_cases [of env st req strm out])
  case (early s)
  then show ?thesis
    by (simp add: generate_internal_def Let_def early_error_def GenerationSummary_init_def
        EngineMetrics_init_def)
next
  case (run n ls0)
  have "0 \<le> generation_tokens (sum_metrics (ls_summary (decode_loop env req strm 0 ls0)))"
    by (rule decode_loop_invariant
          [where I = "\<lambda>l. 0 \<le> generation_tokens (sum_metrics (ls_summary l))"])
       (simp_all add: run loop_iteration_generated)
  moreover have "prompt_tokens (sum_metrics (ls_summary (decode_loop env req strm 0 ls0))) = int n"
    using decode_loop_metrics [of env req strm 0 ls0] run by simp
  ultimately show ?thesis
    using run(1) by (simp add: generate_internal_def Let_def after_loop_def split: prod.splits)
qed

text \<open>
  The percentage of a run whose token counts add up within the 32-bit range: the product
  with 100 is exact, the quotient is rounded once.
\<close>

lemma pct_rounded_quotient:
  assumes "0 \<le> p" "0 \<le> g" "p + g < 2 ^ 31"
  shows "ddiv (dmul (real_of_int (int32_add p g)) 100) (real_of_int c)
           = round_double (real_of_int (p + g) * 100 / real_of_int c)"
proof -
  have s: "int32_add p g = p + g" using assms by (intro int32_add_in_range) simp_all
  have "\<bar>(p + g) * 100\<bar> < 2 ^ 53" using assms by simp
  from dmul_of_int [OF this] have "dmul (real_of_int (p + g)) 100 = real_of_int ((p + g) * 100)"
    by simp
  then show ?thesis by (simp add: s ddiv_def)
qed

lemma c_str_nul_free: "CHR 0x00 \<notin> set e \<Longrightarrow> c_str e = e"
  by (simp add: c_str_def takeWhile_eq_all_conv) metis

lemmas run_defs =
  generate_internal_def generate_body_def prepare_prompt_tokens_def full_prompt_def
  example_env_def loaded_session_def example_request_def valid_stream_def decode_loop.simps
  loop_iteration_def quiet_iteration_def token_piece_def push_def StopBuffer_init_def
  emit_chunk_def ok_jni_def c_str_def after_loop_def flush_def StreamDoneGuard_dtor_def
  dsub_def
  SummaryCommit_dtor_def early_error_def
  GenerationSummary_init_def EngineMetrics_init_def Let_def

lemma quiet_step_no_stops:
  assumes "stops req = []"
    and "\<not> abort_flag (step env k)" "\<not> is_eog (step env k)" "decode_ret (step env k) = 0"
  shows "quiet_step env req None k"
proof -
  have "sb_max_stop (matcher_at env req k) = 0"
    using assms(1) by (simp add: matcher_at_def StopBuffer_init_def)
  then have "\<not> fst (snd (push (matcher_at env req k) (token_piece (step env k))))"
    by (simp add: push_def)
  with assms(2-4) show ?thesis
    by (cases "push (matcher_at env req k) (token_piece (step env k))")
       (simp add: quiet_step_def Let_def emit_chunk_def)
qed

lemma tail_delivered_no_stream: "tail_delivered env req None"
  by (simp add: tail_delivered_def Let_def emit_chunk_def)

lemma build_request_max_tokens:
  "1 \<le> max_tokens (build_request jPrompt jSystem maxTokens jStop)"
  by (simp add: build_request_def)

lemma generateStream_calls:
  "fst (generateStream env st jPrompt jSystem maxTokens jStop (Some True)) =
     gr_calls (generate_internal env st (build_request jPrompt jSystem maxTokens jStop)
       (Some \<lparr>callback = True, on_token = True\<rparr>) None)"
  by (simp add: generateStream_def Let_def)

section \<open>The claims on the generation pipeline and on the recorded configuration\<close>

text \<open>
  Claim C4, as amended. For every streaming run with a valid callback (the callback object and
  its \<^verbatim>\<open>onToken\<close> method are there), on every path of \<^verbatim>\<open>generate_internal\<close>, the callback
  receives zero or more calls with done = false, and after them the terminal call with empty
  text and done = true: exactly once when the Java string for the terminal chunk is allocated,
  and not at all when \<^verbatim>\<open>NewStringUTF\<close> fails for it; nothing follows the terminal call. In
  every run whose generated fragments contain no NUL byte, the text of each call with
  done = false is non-empty.
\<close>

theorem stream_callback_sequence:
  assumes "callback sc" and "on_token sc"
  shows "\<exists>texts.
    gr_calls (generate_internal env st req (Some sc) out)
      = map (\<lambda>t. (t, False)) texts @ (if alloc_ok (done_jni env) then [([], True)] else []) \<and>
    ((\<forall>i. CHR 0x00 \<notin> set (token_piece (step env i))) \<longrightarrow> (\<forall>t\<in>set texts. t \<noteq> []))"
proof (cases "\<forall>i. CHR 0x00 \<notin> set (token_piece (step env i))")
  case True
  then have "\<forall>i. set (token_piece (step env i)) \<subseteq> - {CHR 0x00}" by auto
  from generate_internal_calls [OF assms this, of st req out] obtain calls where
    c: "text_calls (- {CHR 0x00}) calls"
      "gr_calls (generate_internal env st req (Some sc) out)
         = calls @ (if alloc_ok (done_jni env) then [([], True)] else [])"
    by blast
  from c(1) obtain chunks where
    ch: "calls = map (\<lambda>e. (c_str e, False)) chunks"
      "\<forall>e\<in>set chunks. e \<noteq> [] \<and> set e \<subseteq> - {CHR 0x00}"
    by (auto simp: text_calls_def)
  then have "\<forall>e\<in>set chunks. c_str e = e" by (auto intro: c_str_nul_free)
  with ch have "calls = map (\<lambda>t. (t, False)) chunks" "\<forall>t\<in>set chunks. t \<noteq> []" by auto
  with c(2) show ?thesis by blast
next
  case False
  have "\<forall>i. set (token_piece (step env i)) \<subseteq> UNIV" by simp
  from generate_internal_calls [OF assms this, of st req out] obtain calls where
    c: "text_calls UNIV calls"
      "gr_calls (generate_internal env st req (Some sc) out)
         = calls @ (if alloc_ok (done_jni env) then [([], True)] else [])"
    by blast
  from c(1) obtain chunks where "calls = map (\<lambda>e. (c_str e, False)) chunks"
    by (auto simp: text_calls_def)
  then have "calls = map (\<lambda>t. (t, False)) (map c_str chunks)" by simp
  with c(2) False show ?thesis by blast
qed

text \<open>Witness for C4: a run of two tokens, two text chunks and the terminal call.\<close>

theorem stream_callback_sequence_witness:
  "callback valid_stream \<and> on_token valid_stream \<and> alloc_ok (done_jni example_env) \<and>
   CHR 0x00 \<notin> set (token_piece quiet_iteration) \<and>
   gr_calls (generate_internal example_env loaded_session (example_request 2) (Some valid_stream) None)
     = [(''a'', False), (''bab'', False), ([], True)]"
  using stream_callback_sequence [of valid_stream example_env loaded_session "example_request 2" None]
  by (simp add: run_defs)

text \<open>
  Counterexample to C4 as stated, two runs with a valid callback in which \<^verbatim>\<open>NewStringUTF\<close>
  fails for the terminal chunk: \<^verbatim>\<open>emit_chunk\<close> returns before the callback is invoked. In the
  first run no model is loaded, and the callback receives no call at all. In the second run
  two tokens are generated and their text is delivered, and no terminal call follows.
\<close>

theorem stream_callback_counterexample:
  "gr_calls (generate_internal (example_env\<lparr>done_jni := \<lparr>alloc_ok = False, cb_throws = False\<rparr>\<rparr>)
      (unload_locked loaded_session) (example_request 2) (Some valid_stream) None) = [] \<and>
   gr_calls (generate_internal (example_env\<lparr>done_jni := \<lparr>alloc_ok = False, cb_throws = False\<rparr>\<rparr>)
      loaded_session (example_request 2) (Some valid_stream) None)
     = [(''a'', False), (''bab'', False)]"
  by (simp add: run_defs unload_locked_def reset_metrics_locked_def)

text \<open>
  Claim C7, as amended. For every run that reaches the decode loop (model and context live,
  vocabulary, tokenization, prefill and sampler chain succeed) with a loop bound
  \<open>max_tokens \<ge> 0\<close>, in which every one of the \<open>max_tokens\<close> iterations runs to its end (no
  cancellation, no end-of-generation token, no stop-sequence hit, no failed delivery or
  decode), the summary has truncated = true and a generated token count equal to
  \<open>max_tokens\<close>. Its stop reason is \<open>max_tokens\<close> when the text that the matcher still holds
  is delivered after the loop (or there is none to deliver), and \<open>error\<close> when that delivery
  fails. The session's last-run state shows the same. (The entry points pass
  \<open>max(1, maxTokens)\<close> as the loop bound.)
\<close>

theorem max_tokens_truncation:
  assumes "ctx st \<noteq> None" and "model st \<noteq> None" and "vocab env"
    and "prepare_prompt_tokens env (full_prompt req) = Some n"
    and "prefill_ret env = 0" and "sampler env" and "0 \<le> max_tokens req"
    and "\<forall>k. int k < max_tokens req \<longrightarrow> quiet_step env req strm k"
  shows "reason (gr_summary (generate_internal env st req strm out))
      = (if tail_delivered env req strm then MaxTokens else Error) \<and>
    truncated (sum_metrics (gr_summary (generate_internal env st req strm out))) \<and>
    generation_tokens (sum_metrics (gr_summary (generate_internal env st req strm out)))
      = max_tokens req \<and>
    stop_reason (gr_state (generate_internal env st req strm out))
      = (if tail_delivered env req strm then MaxTokens else Error) \<and>
    truncated (metrics (gr_state (generate_internal env st req strm out))) \<and>
    generation_tokens (metrics (gr_state (generate_internal env st req strm out)))
      = max_tokens req"
  using quiet_run_summary [OF assms, of out] generate_internal_commit [of env st req strm out]
  by simp

text \<open>Witness for C7: a run of two quiet iterations with the budget 2, the tail delivered.\<close>

theorem max_tokens_truncation_witness:
  "ctx loaded_session \<noteq> None \<and> model loaded_session \<noteq> None \<and> vocab example_env \<and>
   prepare_prompt_tokens example_env (full_prompt (example_request 2)) = Some 100 \<and>
   prefill_ret example_env = 0 \<and> sampler example_env \<and> 0 \<le> max_tokens (example_request 2) \<and>
   quiet_step example_env (example_request 2) (Some valid_stream) 0 \<and>
   quiet_step example_env (example_request 2) (Some valid_stream) 1 \<and>
   tail_delivered example_env (example_request 2) (Some valid_stream) \<and>
   reason (gr_summary (generate_internal example_env loaded_session (example_request 2)
     (Some valid_stream) None)) = MaxTokens \<and>
   truncated (sum_metrics (gr_summary (generate_internal example_env loaded_session
     (example_request 2) (Some valid_stream) None))) \<and>
   generation_tokens (sum_metrics (gr_summary (generate_internal example_env loaded_session
     (example_request 2) (Some valid_stream) None))) = 2 \<and>
   stop_reason (gr_state (generate_internal example_env loaded_session (example_request 2)
     (Some valid_stream) None)) = MaxTokens"
proof -
  have up: "[0..<2] = [0, Suc 0]" by (simp add: upt_rec)
  have q0: "quiet_step example_env (example_request 2) (Some valid_stream) 0"
    by (simp add: quiet_step_def matcher_at_def pieces_def run_defs)
  have q1: "quiet_step example_env (example_request 2) (Some valid_stream) 1"
    by (simp add: quiet_step_def matcher_at_def pieces_def run_defs)
  have q: "\<forall>k. int k < max_tokens (example_request 2) \<longrightarrow>
      quiet_step example_env (example_request 2) (Some valid_stream) k"
  proof (intro allI impI)
    fix k :: nat
    assume "int k < max_tokens (example_request 2)"
    then have "k = 0 \<or> k = 1" by (auto simp: example_request_def)
    with q0 q1 show "quiet_step example_env (example_request 2) (Some valid_stream) k" by auto
  qed
  have t: "tail_delivered example_env (example_request 2) (Some valid_stream)"
    by (simp add: tail_delivered_def matcher_at_def pieces_def up run_defs)
  have h: "ctx loaded_session \<noteq> None" "model loaded_session \<noteq> None" "vocab example_env"
    "prepare_prompt_tokens example_env (full_prompt (example_request 2)) = Some 100"
    "prefill_ret example_env = 0" "sampler example_env" "0 \<le> max_tokens (example_request 2)"
    by (simp_all add: run_defs)
  from max_tokens_truncation [OF h q, of None] h q0 q1 t show ?thesis
    by (simp add: example_request_def)
qed

text \<open>
  Counterexample to C7 as stated: both iterations of a run with the budget 2 run to their end
  (no cancellation, end-of-generation token, stop hit or error in the loop), and the callback
  throws when the text held by the matcher is delivered after the loop. The summary has
  truncated = true and two generated tokens, and its stop reason is \<open>error\<close>, not
  \<open>max_tokens\<close>.
\<close>

theorem max_tokens_truncation_counterexample:
  "quiet_step (example_env\<lparr>tail_jni := \<lparr>alloc_ok = True, cb_throws = True\<rparr>\<rparr>)
     (example_request 2) (Some valid_stream) 0 \<and>
   quiet_step (example_env\<lparr>tail_jni := \<lparr>alloc_ok = True, cb_throws = True\<rparr>\<rparr>)
     (example_request 2) (Some valid_stream) 1 \<and>
   max_tokens (example_request 2) = 2 \<and>
   reason (gr_summary (generate_internal
     (example_env\<lparr>tail_jni := \<lparr>alloc_ok = True, cb_throws = True\<rparr>\<rparr>)
     loaded_session (example_request 2) (Some valid_stream) None)) = Error \<and>
   reason (gr_summary (generate_internal
     (example_env\<lparr>tail_jni := \<lparr>alloc_ok = True, cb_throws = True\<rparr>\<rparr>)
     loaded_session (example_request 2) (Some valid_stream) None)) \<noteq> MaxTokens \<and>
   truncated (sum_metrics (gr_summary (generate_internal
     (example_env\<lparr>tail_jni := \<lparr>alloc_ok = True, cb_throws = True\<rparr>\<rparr>)
     loaded_session (example_request 2) (Some valid_stream) None))) \<and>
   generation_tokens (sum_metrics (gr_summary (generate_internal
     (example_env\<lparr>tail_jni := \<lparr>alloc_ok = True, cb_throws = True\<rparr>\<rparr>)
     loaded_session (example_request 2) (Some valid_stream) None))) = 2"
  by (simp add: quiet_step_def matcher_at_def pieces_def run_defs)

text \<open>
  Claim C8. Every run of \<^verbatim>\<open>generate_internal\<close>, on every exit path, leaves its summary in the
  session: the session's metrics, stop reason and matched stop text after the run are those of
  the summary. The run fails exactly when the committed reason is \<open>error\<close>; in particular,
  when no model or no context is live the run fails and the session shows the reason \<open>error\<close>
  with the default metrics.
\<close>

theorem summary_committed:
  "metrics (gr_state (generate_internal env st req strm out))
     = sum_metrics (gr_summary (generate_internal env st req strm out)) \<and>
   stop_reason (gr_state (generate_internal env st req strm out))
     = reason (gr_summary (generate_internal env st req strm out)) \<and>
   stop_sequence (gr_state (generate_internal env st req strm out))
     = sum_stop_sequence (gr_summary (generate_internal env st req strm out)) \<and>
   (gr_ret (generate_internal env st req strm out) \<longleftrightarrow>
      stop_reason (gr_state (generate_internal env st req strm out)) \<noteq> Error) \<and>
   (ctx st = None \<or> model st = None \<longrightarrow>
      \<not> gr_ret (generate_internal env st req strm out) \<and>
      stop_reason (gr_state (generate_internal env st req strm out)) = Error \<and>
      metrics (gr_state (generate_internal env st req strm out)) = EngineMetrics_init \<and>
      stop_sequence (gr_state (generate_internal env st req strm out)) = [])"
proof -
  have ret: "br_ret (generate_body env st req strm out) \<longleftrightarrow>
      reason (br_summary (generate_body env st req strm out)) \<noteq> Error"
  proof (cases rule: generate_body_cases [of env st req strm out])
    case (early s)
    then show ?thesis by (simp add: early_error_def)
  next
    case (run n ls0)
    then show ?thesis by (simp add: after_loop_def Let_def split: prod.splits)
  qed
  have dead: "generate_body env st req strm out = early_error st strm out"
    if "ctx st = None \<or> model st = None"
    using that by (auto simp: generate_body_def)
  show ?thesis
    using generate_internal_commit [of env st req strm out] ret dead
    by (auto simp: generate_internal_def Let_def SummaryCommit_dtor_def early_error_def
        GenerationSummary_init_def)
qed

text \<open>
  Witness for C8: a run on an unloaded session, and a run whose second decode fails; the
  session shows the two tokens generated before the failure, truncated, with reason \<open>error\<close>.
\<close>

theorem summary_committed_witness:
  "ctx (unload_locked loaded_session) = None \<and>
   gr_ret (generate_internal example_env (unload_locked loaded_session) (example_request 2)
     None None) = False \<and>
   stop_reason (gr_state (generate_internal example_env (unload_locked loaded_session)
     (example_request 2) None None)) = Error \<and>
   generation_tokens (metrics (gr_state (generate_internal
     (example_env\<lparr>step := (\<lambda>i. if i = 1 then quiet_iteration\<lparr>decode_ret := 1\<rparr>
                                else quiet_iteration)\<rparr>)
     loaded_session (example_request 5) None None))) = 2 \<and>
   truncated (metrics (gr_state (generate_internal
     (example_env\<lparr>step := (\<lambda>i. if i = 1 then quiet_iteration\<lparr>decode_ret := 1\<rparr>
                                else quiet_iteration)\<rparr>)
     loaded_session (example_request 5) None None))) \<and>
   stop_reason (gr_state (generate_internal
     (example_env\<lparr>step := (\<lambda>i. if i = 1 then quiet_iteration\<lparr>decode_ret := 1\<rparr>
                                else quiet_iteration)\<rparr>)
     loaded_session (example_request 5) None None)) = Error"
  using summary_committed [of example_env "unload_locked loaded_session" "example_request 2" None None]
    summary_committed [of "example_env\<lparr>step := (\<lambda>i. if i = 1 then quiet_iteration\<lparr>decode_ret := 1\<rparr>
                                else quiet_iteration)\<rparr>" loaded_session "example_request 5" None None]
  by (simp add: run_defs unload_locked_def reset_metrics_locked_def)

text \<open>
  Claim C9. For every run, when the configured context length is positive and the prompt and
  generated token counts add up within the range of an \<^verbatim>\<open>int\<close> (below \<open>2^31\<close>), the
  reported context-used percentage is (prompt tokens + generated tokens) * 100 / context
  length, computed in \<^verbatim>\<open>double\<close>: the product is exact and the quotient is rounded to the
  nearest \<^verbatim>\<open>double\<close>, so it differs from the exact quotient by at most its \<open>2^53\<close>-th part.
  For context length 4096, 100 prompt tokens and 50 generated tokens it is exactly
  150 * 100 / 4096, within 0.0005 of 3.662. When the context length is not positive the
  percentage is 0. On the early error returns both token counts and the percentage are 0.
  (In general the percentage is computed from the 32-bit sum of the two counts.)
\<close>

theorem context_used_pct_formula:
  "(0 < n_ctx st \<and> prompt_tokens (sum_metrics (gr_summary (generate_internal env st req strm out))) + generation_tokens (sum_metrics (gr_summary (generate_internal env st req strm out))) < 2 ^ 31 \<longrightarrow>
      context_used_pct (sum_metrics (gr_summary (generate_internal env st req strm out))) = round_double (real_of_int (prompt_tokens (sum_metrics (gr_summary (generate_internal env st req strm out))) + generation_tokens (sum_metrics (gr_summary (generate_internal env st req strm out)))) * 100 / real_of_int (n_ctx st)) \<and>
      \<bar>context_used_pct (sum_metrics (gr_summary (generate_internal env st req strm out))) - real_of_int (prompt_tokens (sum_metrics (gr_summary (generate_internal env st req strm out))) + generation_tokens (sum_metrics (gr_summary (generate_internal env st req strm out)))) * 100 / real_of_int (n_ctx st)\<bar>
         \<le> \<bar>real_of_int (prompt_tokens (sum_metrics (gr_summary (generate_internal env st req strm out))) + generation_tokens (sum_metrics (gr_summary (generate_internal env st req strm out)))) * 100 / real_of_int (n_ctx st)\<bar> / 2 ^ 53) \<and>
   (0 < n_ctx st \<longrightarrow>
      context_used_pct (sum_metrics (gr_summary (generate_internal env st req strm out))) = ddiv (dmul (real_of_int (int32_add (prompt_tokens (sum_metrics (gr_summary (generate_internal env st req strm out)))) (generation_tokens (sum_metrics (gr_summary (generate_internal env st req strm out)))))) 100) (real_of_int (n_ctx st))) \<and>
   (\<not> 0 < n_ctx st \<longrightarrow> context_used_pct (sum_metrics (gr_summary (generate_internal env st req strm out))) = 0) \<and>
   metrics (gr_state (generate_internal env st req strm out)) = sum_metrics (gr_summary (generate_internal env st req strm out)) \<and>
   (n_ctx st = 4096 \<and> prompt_tokens (sum_metrics (gr_summary (generate_internal env st req strm out))) = 100 \<and> generation_tokens (sum_metrics (gr_summary (generate_internal env st req strm out))) = 50 \<longrightarrow>
      context_used_pct (sum_metrics (gr_summary (generate_internal env st req strm out))) = 150 * 100 / 4096 \<and> \<bar>context_used_pct (sum_metrics (gr_summary (generate_internal env st req strm out))) - 3.662\<bar> < 0.0005)"
proof -
  let ?m = "sum_metrics (gr_summary (generate_internal env st req strm out))"
  let ?q = "real_of_int (prompt_tokens ?m + generation_tokens ?m) * 100 / real_of_int (n_ctx st)"
  have f: "context_used_pct ?m =
     (if 0 < n_ctx st
      then ddiv (dmul (real_of_int (int32_add (prompt_tokens ?m) (generation_tokens ?m))) 100)
             (real_of_int (n_ctx st))
      else 0)"
    using generate_body_pct [of env st req strm out] by (simp add: generate_internal_summary)
  have c: "metrics (gr_state (generate_internal env st req strm out)) = ?m"
    using generate_internal_commit [of env st req strm out] by simp
  have nn: "0 \<le> generation_tokens ?m" "0 \<le> prompt_tokens ?m"
    using generated_nonneg [of env st req strm out] by simp_all
  have r: "context_used_pct ?m = round_double ?q"
    if "0 < n_ctx st" "prompt_tokens ?m + generation_tokens ?m < 2 ^ 31"
    using f that pct_rounded_quotient [OF nn(2) nn(1) that(2), of "n_ctx st"] by simp
  have b: "\<bar>context_used_pct ?m - ?q\<bar> \<le> \<bar>?q\<bar> / 2 ^ 53"
    if "0 < n_ctx st" "prompt_tokens ?m + generation_tokens ?m < 2 ^ 31"
    using r [OF that] round_double_error [of ?q] by simp
  have e: "context_used_pct ?m = 150 * 100 / 4096 \<and> \<bar>context_used_pct ?m - 3.662\<bar> < 0.0005"
    if "n_ctx st = 4096" "prompt_tokens ?m = 100" "generation_tokens ?m = 50"
  proof -
    have "context_used_pct ?m = round_double (real_of_int 15000 / 2 ^ 12)"
      using r that by simp
    also have "\<dots> = real_of_int 15000 / 2 ^ 12" by (rule round_double_div_pow2) simp
    finally show ?thesis by simp
  qed
  from f c r b e show ?thesis by simp
qed

text \<open>
  Witness for C9: a run with context length 4096, 100 prompt tokens and 50 generated tokens,
  and a run on a session with context length 0.
\<close>

theorem context_used_pct_formula_witness:
  "0 < n_ctx loaded_session \<and> n_ctx loaded_session = 4096 \<and>
   prompt_tokens (sum_metrics (gr_summary (generate_internal example_env loaded_session
     ((example_request 50)\<lparr>stops := []\<rparr>) None None))) = 100 \<and>
   generation_tokens (sum_metrics (gr_summary (generate_internal example_env loaded_session
     ((example_request 50)\<lparr>stops := []\<rparr>) None None))) = 50 \<and>
   context_used_pct (sum_metrics (gr_summary (generate_internal example_env loaded_session
     ((example_request 50)\<lparr>stops := []\<rparr>) None None))) = 150 * 100 / 4096 \<and>
   \<bar>context_used_pct (sum_metrics (gr_summary (generate_internal example_env loaded_session
     ((example_request 50)\<lparr>stops := []\<rparr>) None None))) - 3.662\<bar> < 0.0005 \<and>
   \<not> 0 < n_ctx (loaded_session\<lparr>n_ctx := 0\<rparr>) \<and>
   context_used_pct (sum_metrics (gr_summary (generate_internal example_env
     (loaded_session\<lparr>n_ctx := 0\<rparr>) (example_request 2) None None))) = 0"
proof -
  let ?req = "(example_request 50)\<lparr>stops := []\<rparr>"
  have q: "\<forall>k. int k < max_tokens ?req \<longrightarrow> quiet_step example_env ?req None k"
    by (intro allI impI quiet_step_no_stops)
       (simp_all add: example_request_def example_env_def quiet_iteration_def)
  have h: "ctx loaded_session \<noteq> None" "model loaded_session \<noteq> None" "vocab example_env"
    "prepare_prompt_tokens example_env (full_prompt ?req) = Some 100"
    "prefill_ret example_env = 0" "sampler example_env" "0 \<le> max_tokens ?req"
    by (simp_all add: loaded_session_def example_env_def prepare_prompt_tokens_def
        example_request_def)
  have n: "n_ctx loaded_session = 4096" "n_ctx (loaded_session\<lparr>n_ctx := 0\<rparr>) = 0"
    by (simp_all add: loaded_session_def)
  have m: "max_tokens ?req = 50" by (simp add: example_request_def)
  from quiet_run_summary [OF h q, of None] m
    context_used_pct_formula [of loaded_session example_env ?req None None]
    context_used_pct_formula [of "loaded_session\<lparr>n_ctx := 0\<rparr>" example_env "example_request 2"
      None None]
    n
  show ?thesis by simp
qed

text \<open>
  Claim C10. After every successful \<^verbatim>\<open>loadModel\<close> the session records the clamped values:
  context length \<open>max(512, nCtx)\<close> and thread count \<open>max(1, nThreads)\<close>. The metrics read
  reports them as \<open>nCtx\<close> and \<open>nThreads\<close>, and a following generation run keeps them and
  computes its context-used percentage with the clamped context length: from the 32-bit sum
  of its two token counts in every run, and, in a run of \<open>max_tokens\<close> quiet iterations after
  a prompt of \<open>n\<close> tokens with \<open>n + max_tokens < 2^31\<close>, as the \<^verbatim>\<open>double\<close> nearest to
  \<open>(n + max_tokens) * 100 / max(512, nCtx)\<close>.
\<close>

theorem loadModel_records_clamped:
  assumes "loadModel rt st0 nThreads nCtx nGpuLayers useVulkan = (True, st)"
  shows "n_ctx st = max 512 (sint nCtx) \<and> n_threads st = max 1 (sint nThreads) \<and>
    map_of (build_metrics_json_locked st) ''nCtx'' = Some (JInt (max 512 (sint nCtx))) \<and>
    map_of (build_metrics_json_locked st) ''nThreads'' = Some (JInt (max 1 (sint nThreads))) \<and>
    n_ctx (gr_state (generate_internal env st req strm out)) = max 512 (sint nCtx) \<and>
    n_threads (gr_state (generate_internal env st req strm out)) = max 1 (sint nThreads) \<and>
    context_used_pct (sum_metrics (gr_summary (generate_internal env st req strm out))) = ddiv (dmul (real_of_int (int32_add (prompt_tokens (sum_metrics (gr_summary (generate_internal env st req strm out)))) (generation_tokens (sum_metrics (gr_summary (generate_internal env st req strm out)))))) 100)
            (real_of_int (max 512 (sint nCtx))) \<and>
    (vocab env \<and> prepare_prompt_tokens env (full_prompt req) = Some n \<and> prefill_ret env = 0 \<and>
     sampler env \<and> 0 \<le> max_tokens req \<and>
     (\<forall>k. int k < max_tokens req \<longrightarrow> quiet_step env req strm k) \<and>
     int n + max_tokens req < 2 ^ 31 \<longrightarrow>
       prompt_tokens (sum_metrics (gr_summary (generate_internal env st req strm out))) = int n \<and> generation_tokens (sum_metrics (gr_summary (generate_internal env st req strm out))) = max_tokens req \<and>
       context_used_pct (sum_metrics (gr_summary (generate_internal env st req strm out))) = round_double (real_of_int (int n + max_tokens req) * 100
                             / real_of_int (max 512 (sint nCtx))))"
proof -
  from assms have a: "n_ctx st = max 512 (sint nCtx)" and b: "n_threads st = max 1 (sint nThreads)"
    and live: "ctx st \<noteq> None" "model st \<noteq> None"
    by (auto simp: loadModel_def Let_def reset_metrics_locked_def unload_locked_def
        load_cparams_n_ctx load_cparams_n_threads clamped_n_ctx
        split: option.splits if_splits)
  have j: "map_of (build_metrics_json_locked st) ''nCtx'' = Some (JInt (n_ctx st))"
    "map_of (build_metrics_json_locked st) ''nThreads'' = Some (JInt (n_threads st))"
    by (simp_all add: build_metrics_json_locked_def Let_def)
  have g: "n_ctx (gr_state (generate_internal env st req strm out)) = n_ctx st"
    "n_threads (gr_state (generate_internal env st req strm out)) = n_threads st"
    using generate_body_config [of env st req strm out]
    by (simp_all add: generate_internal_def Let_def SummaryCommit_dtor_def)
  have pos: "0 < n_ctx st" using a by simp
  from generate_body_pct [of env st req strm out] pos
  have p: "context_used_pct (sum_metrics (gr_summary (generate_internal env st req strm out))) = ddiv (dmul (real_of_int (int32_add (prompt_tokens (sum_metrics (gr_summary (generate_internal env st req strm out)))) (generation_tokens (sum_metrics (gr_summary (generate_internal env st req strm out)))))) 100) (real_of_int (n_ctx st))"
    by (simp add: generate_internal_summary)
  have q: "prompt_tokens (sum_metrics (gr_summary (generate_internal env st req strm out))) = int n \<and> generation_tokens (sum_metrics (gr_summary (generate_internal env st req strm out))) = max_tokens req \<and>
       context_used_pct (sum_metrics (gr_summary (generate_internal env st req strm out))) = round_double (real_of_int (int n + max_tokens req) * 100 / real_of_int (n_ctx st))"
    if h: "vocab env" "prepare_prompt_tokens env (full_prompt req) = Some n" "prefill_ret env = 0"
      "sampler env" "0 \<le> max_tokens req"
      "\<forall>k. int k < max_tokens req \<longrightarrow> quiet_step env req strm k"
      and lt: "int n + max_tokens req < 2 ^ 31"
  proof -
    from quiet_run_summary [OF live h, of out]
    have pg: "prompt_tokens (sum_metrics (gr_summary (generate_internal env st req strm out))) = int n" "generation_tokens (sum_metrics (gr_summary (generate_internal env st req strm out))) = max_tokens req" by simp_all
    have "ddiv (dmul (real_of_int (int32_add (int n) (max_tokens req))) 100)
            (real_of_int (n_ctx st))
        = round_double (real_of_int (int n + max_tokens req) * 100 / real_of_int (n_ctx st))"
      by (rule pct_rounded_quotient) (use h(5) lt in simp_all)
    with p pg show ?thesis by simp
  qed
  show ?thesis
    using a b j [unfolded a b] g [unfolded a b] p [unfolded a] q [unfolded a] by blast
qed

text \<open>
  Witness for C10: requests of 0 threads with context 100, and of -3 threads with context
  8192; after the first, a run of two tokens on a prompt of 100 tokens uses
  102 * 100 / 512 = 1275 / 64 percent of the context.
\<close>

theorem loadModel_records_clamped_witness:
  "loadModel good_model_file loaded_session 0 100 0 True
     = (True, \<lparr>model = Some 5, ctx = Some 6, n_ctx = 512, n_threads = 1, n_gpu_layers = 0,
               use_vulkan = True, metrics = EngineMetrics_init, stop_reason = None_reason,
               stop_sequence = [], should_abort = False\<rparr>) \<and>
   loadModel good_model_file loaded_session (- 3) 8192 0 False
     = (True, \<lparr>model = Some 5, ctx = Some 6, n_ctx = 8192, n_threads = 1, n_gpu_layers = 0,
               use_vulkan = False, metrics = EngineMetrics_init, stop_reason = None_reason,
               stop_sequence = [], should_abort = False\<rparr>) \<and>
   map_of (build_metrics_json_locked (snd (loadModel good_model_file loaded_session 0 100 0 True)))
     ''nCtx'' = Some (JInt 512) \<and>
   context_used_pct (sum_metrics (gr_summary (generate_internal example_env
       (snd (loadModel good_model_file loaded_session 0 100 0 True))
       ((example_request 2)\<lparr>stops := []\<rparr>) None None))) = 1275 / 64 \<and>
   generation_tokens (sum_metrics (gr_summary (generate_internal example_env
       (snd (loadModel good_model_file loaded_session 0 100 0 True))
       ((example_request 2)\<lparr>stops := []\<rparr>) None None))) = 2"
proof -
  let ?req = "(example_request 2)\<lparr>stops := []\<rparr>"
  have s: "sint (100 :: 32 word) = 100" "sint (0 :: 32 word) = 0" "sint (- 3 :: 32 word) = - 3"
    "sint (8192 :: 32 word) = 8192"
    by simp_all
  have l1: "loadModel good_model_file loaded_session 0 100 0 True
     = (True, snd (loadModel good_model_file loaded_session 0 100 0 True))"
    by (simp add: loadModel_def good_model_file_def file_exists_def Let_def)
  have l2: "loadModel good_model_file loaded_session (- 3) 8192 0 False
     = (True, snd (loadModel good_model_file loaded_session (- 3) 8192 0 False))"
    by (simp add: loadModel_def good_model_file_def file_exists_def Let_def)
  have f1: "snd (loadModel good_model_file loaded_session 0 100 0 True) =
      (snd (loadModel good_model_file loaded_session 0 100 0 True))
        \<lparr>n_ctx := n_ctx (snd (loadModel good_model_file loaded_session 0 100 0 True)),
         n_threads := n_threads (snd (loadModel good_model_file loaded_session 0 100 0 True))\<rparr>"
    by simp
  have f2: "snd (loadModel good_model_file loaded_session (- 3) 8192 0 False) =
      (snd (loadModel good_model_file loaded_session (- 3) 8192 0 False))
        \<lparr>n_ctx := n_ctx (snd (loadModel good_model_file loaded_session (- 3) 8192 0 False)),
         n_threads := n_threads (snd (loadModel good_model_file loaded_session (- 3) 8192 0 False))\<rparr>"
    by simp
  note c1 = loadModel_records_clamped [OF l1, of example_env ?req None None 100]
  note c2 = loadModel_records_clamped [OF l2, of example_env ?req None None 100]
  have r1: "snd (loadModel good_model_file loaded_session 0 100 0 True) =
      \<lparr>model = Some 5, ctx = Some 6, n_ctx = 512, n_threads = 1, n_gpu_layers = 0,
               use_vulkan = True, metrics = EngineMetrics_init, stop_reason = None_reason,
               stop_sequence = [], should_abort = False\<rparr>"
    apply (subst f1)
    using c1 s
    by (simp add: loadModel_def good_model_file_def file_exists_def Let_def
        reset_metrics_locked_def unload_locked_def loaded_session_def)
  have r2: "snd (loadModel good_model_file loaded_session (- 3) 8192 0 False) =
      \<lparr>model = Some 5, ctx = Some 6, n_ctx = 8192, n_threads = 1, n_gpu_layers = 0,
               use_vulkan = False, metrics = EngineMetrics_init, stop_reason = None_reason,
               stop_sequence = [], should_abort = False\<rparr>"
    apply (subst f2)
    using c2 s
    by (simp add: loadModel_def good_model_file_def file_exists_def Let_def
        reset_metrics_locked_def unload_locked_def loaded_session_def)
  have q: "\<forall>k. int k < max_tokens ?req \<longrightarrow> quiet_step example_env ?req None k"
    by (intro allI impI quiet_step_no_stops)
       (simp_all add: example_request_def example_env_def quiet_iteration_def)
  have A: "vocab example_env \<and>
      prepare_prompt_tokens example_env (full_prompt ?req) = Some 100 \<and>
      prefill_ret example_env = 0 \<and> sampler example_env \<and> 0 \<le> max_tokens ?req \<and>
      (\<forall>k. int k < max_tokens ?req \<longrightarrow> quiet_step example_env ?req None k) \<and>
      int 100 + max_tokens ?req < 2 ^ 31"
    using q by (simp add: example_env_def prepare_prompt_tokens_def example_request_def)
  note B = c1 [THEN conjunct2, THEN conjunct2, THEN conjunct2, THEN conjunct2, THEN conjunct2,
      THEN conjunct2, THEN conjunct2, THEN mp, OF A]
  have m: "max_tokens ?req = 2" by (simp add: example_request_def)
  have "real_of_int (int 100 + 2) * 100 / real_of_int (max 512 100) = real_of_int 1275 / 2 ^ 6"
    by simp
  moreover have "round_double (real_of_int 1275 / 2 ^ 6) = real_of_int 1275 / 2 ^ 6"
    by (rule round_double_div_pow2) simp
  ultimately have val:
    "round_double (real_of_int (int 100 + 2) * 100 / real_of_int (max 512 100)) = 1275 / 64"
    by simp
  from B have
    "context_used_pct (sum_metrics (gr_summary (generate_internal example_env
       (snd (loadModel good_model_file loaded_session 0 100 0 True)) ?req None None))) = 1275 / 64"
    "generation_tokens (sum_metrics (gr_summary (generate_internal example_env
       (snd (loadModel good_model_file loaded_session 0 100 0 True)) ?req None None))) = 2"
    by (simp_all only: m s val)
  with l1 l2 r1 r2 c1 show ?thesis by simp
qed

end
